theory Spec2Isabelle
  imports Complex_Main
begin

section \<open>Floats, exceptions and the outside world\<close>

text \<open>
  The module \<^verbatim>\<open>clever_flight_routines/__init__.py\<close> drives a vehicle through ROS service
  proxies. Its own logic is sequencing: which calls are made, in which order, and when a
  polling loop stops. The embedding keeps that logic as it is written and makes the
  outside world explicit:
  \<^item> a Python float is a \<open>pyfloat\<close>: a finite double, given by the real number it
    denotes, one of the two infinities, or NaN. What the machine computes from finite
    operands (the rounded result, or an infinity when the result is out of range) is
    given by a \<open>float_arith\<close>, so that every statement holds for the rounding of IEEE 754
    doubles as for any other; the special values behave as IEEE 754 and Python prescribe;
  \<^item> every interaction with the outside (a service call, a sleep, a log line) appends an
    \<open>event\<close> to the \<open>trace\<close> of the \<open>world\<close>;
  \<^item> what the outside answers is given by oracles: the \<open>n\<close>-th call of
    \<^verbatim>\<open>get_telemetry\<close> returns \<open>telemetry e frame n\<close>, and a \<^verbatim>\<open>threading.Event\<close> is a
    function from the poll tick (the number of \<^verbatim>\<open>rate.sleep()\<close> calls so far) to its
    state at that tick. Service calls are taken to return: a gateway that raises is not
    part of any statement below;
  \<^item> a \<^verbatim>\<open>while\<close> loop that may poll forever takes fuel, the number of iterations it
    may still make; running out of fuel is the outcome \<open>Timeout\<close>, and the world reached
    so far is returned with it.
\<close>

datatype pyfloat = Fin real | PInf | NInf | NaN

datatype exn = IOError | ValueError | CsvError | OverflowError

datatype outcome = Finished | Returned | Raised exn | Timeout

fun isnan :: "pyfloat \<Rightarrow> bool" where
  "isnan NaN = True"
| "isnan _ = False"

fun fneg :: "pyfloat \<Rightarrow> pyfloat" where
  "fneg (Fin a) = Fin (- a)"
| "fneg PInf = NInf"
| "fneg NInf = PInf"
| "fneg NaN = NaN"

text \<open>
  The arithmetic of the machine on finite doubles: the sum, the square and the square
  root, each rounded, or infinite when out of range.
\<close>

record float_arith =
  add_double :: "real \<Rightarrow> real \<Rightarrow> pyfloat"
  square_double :: "real \<Rightarrow> pyfloat"
  sqrt_double :: "real \<Rightarrow> pyfloat"

fun fadd :: "float_arith \<Rightarrow> pyfloat \<Rightarrow> pyfloat \<Rightarrow> pyfloat" where
  "fadd m NaN _ = NaN"
| "fadd m _ NaN = NaN"
| "fadd m PInf NInf = NaN"
| "fadd m NInf PInf = NaN"
| "fadd m PInf _ = PInf"
| "fadd m _ PInf = PInf"
| "fadd m NInf _ = NInf"
| "fadd m _ NInf = NInf"
| "fadd m (Fin a) (Fin b) = add_double m a b"

definition fsub :: "float_arith \<Rightarrow> pyfloat \<Rightarrow> pyfloat \<Rightarrow> pyfloat" where
  "fsub m a b = fadd m a (fneg b)"

text \<open>
  \<^verbatim>\<open>v ** 2\<close>: a finite operand whose square is out of range raises OverflowError.
\<close>

fun fsquare :: "float_arith \<Rightarrow> pyfloat \<Rightarrow> exn + pyfloat" where
  "fsquare m (Fin a) = (case square_double m a of Fin r \<Rightarrow> Inr (Fin r) | _ \<Rightarrow> Inl OverflowError)"
| "fsquare m PInf = Inr PInf"
| "fsquare m NInf = Inr PInf"
| "fsquare m NaN = Inr NaN"

text \<open>\<^verbatim>\<open>abs(v)\<close>.\<close>

fun fabs :: "pyfloat \<Rightarrow> pyfloat" where
  "fabs (Fin a) = Fin \<bar>a\<bar>"
| "fabs PInf = PInf"
| "fabs NInf = PInf"
| "fabs NaN = NaN"

text \<open>\<^verbatim>\<open>math.sqrt(v)\<close> raises ValueError on a negative argument.\<close>

fun math_sqrt :: "float_arith \<Rightarrow> pyfloat \<Rightarrow> exn + pyfloat" where
  "math_sqrt m (Fin a) = (if a < 0 then Inl ValueError else Inr (sqrt_double m a))"
| "math_sqrt m PInf = Inr PInf"
| "math_sqrt m NInf = Inl ValueError"
| "math_sqrt m NaN = Inr NaN"

text \<open>\<^verbatim>\<open>a > b\<close>: every comparison with NaN is false.\<close>

fun fgt :: "pyfloat \<Rightarrow> pyfloat \<Rightarrow> bool" where
  "fgt NaN _ = False"
| "fgt _ NaN = False"
| "fgt (Fin a) (Fin b) = (a > b)"
| "fgt PInf PInf = False"
| "fgt PInf _ = True"
| "fgt _ PInf = False"
| "fgt NInf _ = False"
| "fgt _ NInf = True"

text \<open>The fields of a \<^verbatim>\<open>GetTelemetry\<close> response that the module reads.\<close>

record telem =
  tel_x :: pyfloat
  tel_y :: pyfloat
  tel_z :: pyfloat

text \<open>The request of the \<^verbatim>\<open>/navigate\<close> service; \<open>auto_arm\<close> is false when not passed.\<close>

record nav_request =
  nav_x :: pyfloat
  nav_y :: pyfloat
  nav_z :: pyfloat
  nav_yaw :: pyfloat
  nav_speed :: pyfloat
  nav_frame_id :: string
  nav_auto_arm :: bool

datatype logline =
    TakeoffStarted
  | NavigateResult
  | TakeoffProgress pyfloat pyfloat
  | TakeoffSucceeded
  | ReachingPoint pyfloat pyfloat pyfloat
  | DistanceRemaining pyfloat
  | PointReached
  | OpenFileForWriting string
  | RouteIsCreated string
  | AddPoint pyfloat pyfloat pyfloat string
  | FileCantBeOpened string

datatype event =
    Loginfo logline
  | Logdebug logline
  | LoggingError logline
  | GetTelemetry string
  | Navigate nav_request
  | RateSleep
  | TimeSleep real
  | FlightCall pyfloat pyfloat pyfloat pyfloat string

record world =
  trace :: "event list"
  reads :: nat
  clock :: nat
  files :: "string \<rightharpoonup> string"

record env =
  doubles :: float_arith
  telemetry :: "string \<Rightarrow> nat \<Rightarrow> telem"
  float_repr :: "pyfloat \<Rightarrow> string"
  float_of_string :: "string \<Rightarrow> pyfloat option"
  open_for_writing_fails :: "string \<Rightarrow> bool"

definition emit :: "event \<Rightarrow> world \<Rightarrow> world" where
  "emit ev s = s\<lparr>trace := trace s @ [ev]\<rparr>"

definition loginfo :: "logline \<Rightarrow> world \<Rightarrow> world" where
  "loginfo l = emit (Loginfo l)"

definition logdebug :: "logline \<Rightarrow> world \<Rightarrow> world" where
  "logdebug l = emit (Logdebug l)"

definition logging_error :: "logline \<Rightarrow> world \<Rightarrow> world" where
  "logging_error l = emit (LoggingError l)"

definition get_telemetry :: "env \<Rightarrow> string \<Rightarrow> world \<Rightarrow> telem \<times> world" where
  "get_telemetry e frame_id s =
     (telemetry e frame_id (reads s), emit (GetTelemetry frame_id) (s\<lparr>reads := Suc (reads s)\<rparr>))"

definition navigate :: "nav_request \<Rightarrow> world \<Rightarrow> world" where
  "navigate req = emit (Navigate req)"

definition rate_sleep :: "world \<Rightarrow> world" where
  "rate_sleep s = emit RateSleep (s\<lparr>clock := Suc (clock s)\<rparr>)"

definition time_sleep :: "real \<Rightarrow> world \<Rightarrow> world" where
  "time_sleep delay = emit (TimeSleep delay)"

section \<open>Globals\<close>

text \<open>
  The literal \<^verbatim>\<open>0.2\<close> is the double next to it, \<open>3602879701896397 / 2\<^sup>5\<^sup>4\<close>.
\<close>

definition FREQUENCY :: nat where "FREQUENCY = 10"
definition TOLERANCE :: pyfloat where
  "TOLERANCE = Fin (3602879701896397 / 18014398509481984)"
definition SPEED :: pyfloat where "SPEED = Fin 1"
definition TAKEOFF_SPEED :: pyfloat where "TAKEOFF_SPEED = Fin 1"
definition TAKEOFF_HEIGHT :: pyfloat where "TAKEOFF_HEIGHT = Fin 1"
definition LOCAL_FRAME_ID :: string where "LOCAL_FRAME_ID = ''map''"
definition COPTER_FRAME_ID :: string where "COPTER_FRAME_ID = ''body''"

section \<open>Distance, takeoff and point reaching\<close>

definition get_distance ::
  "float_arith \<Rightarrow> pyfloat \<Rightarrow> pyfloat \<Rightarrow> pyfloat \<Rightarrow> pyfloat \<Rightarrow> pyfloat \<Rightarrow> pyfloat \<Rightarrow> exn + pyfloat" where
  "get_distance m x1 y1 z1 x2 y2 z2 =
     (case fsquare m (fsub m x1 x2) of
        Inl ex \<Rightarrow> Inl ex
      | Inr dx \<Rightarrow>
          (case fsquare m (fsub m y1 y2) of
             Inl ex \<Rightarrow> Inl ex
           | Inr dy \<Rightarrow>
               (case fsquare m (fsub m z1 z2) of
                  Inl ex \<Rightarrow> Inl ex
                | Inr dz \<Rightarrow> math_sqrt m (fadd m (fadd m dx dy) dz))))"

text \<open>
  The loop of \<^verbatim>\<open>takeoff\<close>:
  \<^verbatim>\<open>while abs(climb - height) > tolerance:
      climb = abs(get_telemetry(frame_id=frame_id).z - start.z)
      rospy.logdebug(...)
      rate.sleep()\<close>
\<close>

fun takeoff_loop ::
  "nat \<Rightarrow> env \<Rightarrow> pyfloat \<Rightarrow> pyfloat \<Rightarrow> string \<Rightarrow> telem \<Rightarrow> pyfloat \<Rightarrow> world \<Rightarrow> outcome \<times> world" where
  "takeoff_loop 0 e height tolerance frame_id start climb s =
     (if fgt (fabs (fsub (doubles e) climb height)) tolerance then (Timeout, s) else (Finished, s))"
| "takeoff_loop (Suc n) e height tolerance frame_id start climb s =
     (if fgt (fabs (fsub (doubles e) climb height)) tolerance then
        (let (t, s1) = get_telemetry e frame_id s;
             climb' = fabs (fsub (doubles e) (tel_z t) (tel_z start));
             s2 = logdebug (TakeoffProgress climb' height) s1;
             s3 = rate_sleep s2
         in takeoff_loop n e height tolerance frame_id start climb' s3)
      else (Finished, s))"

definition takeoff ::
  "nat \<Rightarrow> env \<Rightarrow> pyfloat \<Rightarrow> pyfloat \<Rightarrow> pyfloat \<Rightarrow> string \<Rightarrow> world \<Rightarrow> outcome \<times> world" where
  "takeoff n e height speed tolerance frame_id s =
     (let s1 = loginfo TakeoffStarted s;
          (start, s2) = get_telemetry e frame_id s1;
          climb = Fin 0;
          s3 = navigate \<lparr>nav_x = tel_x start, nav_y = tel_y start,
                 nav_z = fadd (doubles e) (tel_z start) height, nav_yaw = NaN, nav_speed = speed,
                 nav_frame_id = frame_id, nav_auto_arm = True\<rparr> s2;
          s4 = logdebug NavigateResult s3
      in case takeoff_loop n e height tolerance frame_id start climb s4 of
           (Finished, s5) \<Rightarrow> (Returned, loginfo TakeoffSucceeded s5)
         | r \<Rightarrow> r)"

text \<open>
  The loop of \<^verbatim>\<open>reach_point\<close>:
  \<^verbatim>\<open>while delta > tolerance:
      telem = get_telemetry(frame_id=frame_id)
      delta = get_distance(x, y, z, telem.x, telem.y, telem.z)
      rospy.logdebug(...)
      rate.sleep()\<close>
\<close>

fun reach_loop ::
  "nat \<Rightarrow> env \<Rightarrow> pyfloat \<Rightarrow> pyfloat \<Rightarrow> pyfloat \<Rightarrow> pyfloat \<Rightarrow> string \<Rightarrow> pyfloat \<Rightarrow> world
     \<Rightarrow> outcome \<times> world" where
  "reach_loop 0 e x y z tolerance frame_id delta s =
     (if fgt delta tolerance then (Timeout, s) else (Finished, s))"
| "reach_loop (Suc n) e x y z tolerance frame_id delta s =
     (if fgt delta tolerance then
        (let (t, s1) = get_telemetry e frame_id s
         in case get_distance (doubles e) x y z (tel_x t) (tel_y t) (tel_z t) of
              Inl ex \<Rightarrow> (Raised ex, s1)
            | Inr delta' \<Rightarrow>
                (let s2 = logdebug (DistanceRemaining delta') s1;
                     s3 = rate_sleep s2
                 in reach_loop n e x y z tolerance frame_id delta' s3))
      else (Finished, s))"

definition reach_point ::
  "nat \<Rightarrow> env \<Rightarrow> pyfloat \<Rightarrow> pyfloat \<Rightarrow> pyfloat \<Rightarrow> pyfloat \<Rightarrow> pyfloat \<Rightarrow> pyfloat \<Rightarrow> string \<Rightarrow> world
     \<Rightarrow> outcome \<times> world" where
  "reach_point n e x y z yaw speed tolerance frame_id s =
     (let s1 = loginfo (ReachingPoint x y z) s;
          (t, s2) = get_telemetry e frame_id s1;
          s3 = navigate \<lparr>nav_x = x, nav_y = y, nav_z = z, nav_yaw = yaw, nav_speed = speed,
                 nav_frame_id = frame_id, nav_auto_arm = False\<rparr> s2;
          s4 = logdebug NavigateResult s3
      in case get_distance (doubles e) x y z (tel_x t) (tel_y t) (tel_z t) of
           Inl ex \<Rightarrow> (Raised ex, s4)
         | Inr delta \<Rightarrow>
             (case reach_loop n e x y z tolerance frame_id delta s4 of
                (Finished, s5) \<Rightarrow> (Returned, loginfo PointReached s5)
              | r \<Rightarrow> r))"

section \<open>Route recording\<close>

text \<open>
  A \<^verbatim>\<open>threading.Event\<close> that an operator controls is read by \<^verbatim>\<open>is_set()\<close> only. It is
  modelled by its schedule: its state at every poll tick. Reads between two calls of
  \<^verbatim>\<open>rate.sleep()\<close> see the same tick.
\<close>

type_synonym trigger = "nat \<Rightarrow> bool"

definition is_set :: "trigger \<Rightarrow> world \<Rightarrow> bool" where
  "is_set trig s = trig (clock s)"

definition CR :: char where "CR = CHR 0x0D"
definition LF :: char where "LF = CHR 0x0A"
definition NUL :: char where "NUL = CHR 0x00"

text \<open>
  \<^verbatim>\<open>csv.writer(f, delimiter, quotechar, quoting=csv.QUOTE_MINIMAL).writerow(row)\<close>, as the
  standard library documents it: a field is quoted only when it contains the delimiter,
  the quote character or a line terminator character; a quote character inside a quoted
  field is doubled; a record that would be empty is written as two quote characters; the
  line terminator is CR LF.
\<close>

definition needs_quoting :: "char \<Rightarrow> char \<Rightarrow> string \<Rightarrow> bool" where
  "needs_quoting delimiter quotechar field =
     list_ex (\<lambda>c. c = delimiter \<or> c = quotechar \<or> c = CR \<or> c = LF) field"

definition quoted :: "char \<Rightarrow> string \<Rightarrow> string" where
  "quoted quotechar field =
     quotechar # concat (map (\<lambda>c. if c = quotechar then [c, c] else [c]) field) @ [quotechar]"

fun join_fields :: "char \<Rightarrow> string list \<Rightarrow> string" where
  "join_fields delimiter [] = []"
| "join_fields delimiter [f] = f"
| "join_fields delimiter (f # fs) = f @ delimiter # join_fields delimiter fs"

definition csv_writerow :: "char \<Rightarrow> char \<Rightarrow> string list \<Rightarrow> string" where
  "csv_writerow delimiter quotechar row =
     (let fs = map (\<lambda>f. if needs_quoting delimiter quotechar f then quoted quotechar f else f) row;
          rec = join_fields delimiter fs
      in (if row \<noteq> [] \<and> rec = [] then [quotechar, quotechar] else rec) @ [CR, LF])"

text \<open>\<^verbatim>\<open>open(filename, mode='w+')\<close> creates or truncates the file; it may raise IOError.\<close>

definition open_for_writing :: "env \<Rightarrow> string \<Rightarrow> world \<Rightarrow> exn + world" where
  "open_for_writing e filename s =
     (if open_for_writing_fails e filename then Inl IOError
      else Inr (s\<lparr>files := (files s)(filename \<mapsto> [])\<rparr>))"

definition file_write :: "string \<Rightarrow> string \<Rightarrow> world \<Rightarrow> world" where
  "file_write filename txt s =
     s\<lparr>files := (files s)(filename \<mapsto> (case files s filename of None \<Rightarrow> txt | Some c \<Rightarrow> c @ txt))\<rparr>"

text \<open>
  The first inner loop of \<^verbatim>\<open>create_route\<close>:
  \<^verbatim>\<open>while not add_trigger.is_set():
      if stop_trigger.is_set():
          rospy.loginfo('Route {} is created'.format(filename))
          return
      rate.sleep()\<close>
\<close>

fun wait_for_add :: "nat \<Rightarrow> string \<Rightarrow> trigger \<Rightarrow> trigger \<Rightarrow> world \<Rightarrow> outcome \<times> world" where
  "wait_for_add 0 filename add_trigger stop_trigger s =
     (if \<not> is_set add_trigger s then
        (if is_set stop_trigger s then (Returned, loginfo (RouteIsCreated filename) s)
         else (Timeout, s))
      else (Finished, s))"
| "wait_for_add (Suc n) filename add_trigger stop_trigger s =
     (if \<not> is_set add_trigger s then
        (if is_set stop_trigger s then (Returned, loginfo (RouteIsCreated filename) s)
         else wait_for_add n filename add_trigger stop_trigger (rate_sleep s))
      else (Finished, s))"

text \<open>
  The second inner loop:
  \<^verbatim>\<open>while add_trigger.is_set():
      if stop_trigger.is_set():
          rospy.loginfo('Route {} is created'.format(filename))
          return
      rate.sleep()\<close>
\<close>

fun wait_for_release :: "nat \<Rightarrow> string \<Rightarrow> trigger \<Rightarrow> trigger \<Rightarrow> world \<Rightarrow> outcome \<times> world" where
  "wait_for_release 0 filename add_trigger stop_trigger s =
     (if is_set add_trigger s then
        (if is_set stop_trigger s then (Returned, loginfo (RouteIsCreated filename) s)
         else (Timeout, s))
      else (Finished, s))"
| "wait_for_release (Suc n) filename add_trigger stop_trigger s =
     (if is_set add_trigger s then
        (if is_set stop_trigger s then (Returned, loginfo (RouteIsCreated filename) s)
         else wait_for_release n filename add_trigger stop_trigger (rate_sleep s))
      else (Finished, s))"

text \<open>The text of the record that \<^verbatim>\<open>csv_writer.writerow([telem.x, telem.y, telem.z])\<close> writes.\<close>

definition telem_row :: "env \<Rightarrow> telem \<Rightarrow> string" where
  "telem_row e t =
     csv_writerow (CHR '','') (CHR 0x22) [float_repr e (tel_x t), float_repr e (tel_y t), float_repr e (tel_z t)]"

text \<open>
  The outer loop, \<^verbatim>\<open>while not stop_trigger.is_set(): ...\<close>. The fuel bounds the
  iterations of the outer loop and of each run of an inner loop.
\<close>

fun record_loop ::
  "nat \<Rightarrow> env \<Rightarrow> string \<Rightarrow> trigger \<Rightarrow> trigger \<Rightarrow> string \<Rightarrow> world \<Rightarrow> outcome \<times> world" where
  "record_loop 0 e filename add_trigger stop_trigger frame_id s =
     (if \<not> is_set stop_trigger s then (Timeout, s) else (Finished, s))"
| "record_loop (Suc n) e filename add_trigger stop_trigger frame_id s =
     (if \<not> is_set stop_trigger s then
        (case wait_for_add (Suc n) filename add_trigger stop_trigger s of
           (Finished, s1) \<Rightarrow>
             (let (t, s2) = get_telemetry e frame_id s1;
                  s3 = file_write filename (telem_row e t) s2;
                  s4 = loginfo (AddPoint (tel_x t) (tel_y t) (tel_z t) filename) s3
              in case wait_for_release (Suc n) filename add_trigger stop_trigger s4 of
                   (Finished, s5) \<Rightarrow> record_loop n e filename add_trigger stop_trigger frame_id s5
                 | r \<Rightarrow> r)
         | r \<Rightarrow> r)
      else (Finished, s))"

definition create_route ::
  "nat \<Rightarrow> env \<Rightarrow> string \<Rightarrow> trigger \<Rightarrow> trigger \<Rightarrow> string \<Rightarrow> world \<Rightarrow> outcome \<times> world" where
  "create_route n e filename add_trigger stop_trigger frame_id s =
     (case open_for_writing e filename s of
        Inl ex \<Rightarrow> (Raised ex, s)
      | Inr s1 \<Rightarrow>
          (let s2 = loginfo (OpenFileForWriting filename) s1
           in case record_loop n e filename add_trigger stop_trigger frame_id s2 of
                (Finished, s3) \<Rightarrow> (Returned, loginfo (RouteIsCreated filename) s3)
              | r \<Rightarrow> r))"

section \<open>Route reading\<close>

text \<open>An imported point: the dictionary with the keys \<^verbatim>\<open>'x'\<close>, \<^verbatim>\<open>'y'\<close> and \<^verbatim>\<open>'z'\<close>.\<close>

record point =
  pt_x :: pyfloat
  pt_y :: pyfloat
  pt_z :: pyfloat

text \<open>
  Iterating over a file opened by \<^verbatim>\<open>open(filename)\<close> yields its lines, each with its
  terminating LF (Python 2 on POSIX, where the text mode translates nothing).
\<close>

fun file_lines :: "string \<Rightarrow> string \<Rightarrow> string list" where
  "file_lines cur [] = (if cur = [] then [] else [cur])"
| "file_lines cur (c # cs) =
     (if c = LF then (cur @ [c]) # file_lines [] cs else file_lines (cur @ [c]) cs)"

text \<open>
  \<^verbatim>\<open>csv.reader(f, delimiter, quotechar)\<close> is the state machine of the standard library's
  parser, for a dialect without an escape character, with \<^verbatim>\<open>doublequote\<close> on and
  \<^verbatim>\<open>strict\<close> off. The parser is fed the characters of every line and then an end-of-line
  marker (\<open>None\<close> below); a record is complete when the parser is back in
  \<open>START_RECORD\<close>.
\<close>

datatype parser_state =
  START_RECORD | START_FIELD | IN_FIELD | IN_QUOTED_FIELD | QUOTE_IN_QUOTED_FIELD | EAT_CRNL

record parser =
  pstate :: parser_state
  rec_fields :: "string list"
  cur_field :: string

definition parse_reset :: parser where
  "parse_reset = \<lparr>pstate = START_RECORD, rec_fields = [], cur_field = []\<rparr>"

definition parse_save_field :: "parser \<Rightarrow> parser" where
  "parse_save_field p = p\<lparr>rec_fields := rec_fields p @ [cur_field p], cur_field := []\<rparr>"

definition parse_add_char :: "char \<Rightarrow> parser \<Rightarrow> parser" where
  "parse_add_char c p = p\<lparr>cur_field := cur_field p @ [c]\<rparr>"

definition is_newline :: "char option \<Rightarrow> bool" where
  "is_newline c = (c = Some LF \<or> c = Some CR)"

definition start_field :: "char \<Rightarrow> char \<Rightarrow> parser \<Rightarrow> char option \<Rightarrow> exn + parser" where
  "start_field delimiter quotechar p c =
     (case c of
        None \<Rightarrow> Inr ((parse_save_field p)\<lparr>pstate := START_RECORD\<rparr>)
      | Some ch \<Rightarrow>
          if ch = LF \<or> ch = CR then Inr ((parse_save_field p)\<lparr>pstate := EAT_CRNL\<rparr>)
          else if ch = quotechar then Inr (p\<lparr>pstate := IN_QUOTED_FIELD\<rparr>)
          else if ch = delimiter then Inr (parse_save_field p)
          else Inr ((parse_add_char ch p)\<lparr>pstate := IN_FIELD\<rparr>))"

fun parse_process_char :: "char \<Rightarrow> char \<Rightarrow> parser \<Rightarrow> char option \<Rightarrow> exn + parser" where
  "parse_process_char delimiter quotechar p c =
     (case pstate p of
        START_RECORD \<Rightarrow>
          (if c = None then Inr p
           else if is_newline c then Inr (p\<lparr>pstate := EAT_CRNL\<rparr>)
           else start_field delimiter quotechar (p\<lparr>pstate := START_FIELD\<rparr>) c)
      | START_FIELD \<Rightarrow> start_field delimiter quotechar p c
      | IN_FIELD \<Rightarrow>
          (case c of
             None \<Rightarrow> Inr ((parse_save_field p)\<lparr>pstate := START_RECORD\<rparr>)
           | Some ch \<Rightarrow>
               if ch = LF \<or> ch = CR then Inr ((parse_save_field p)\<lparr>pstate := EAT_CRNL\<rparr>)
               else if ch = delimiter then Inr ((parse_save_field p)\<lparr>pstate := START_FIELD\<rparr>)
               else Inr (parse_add_char ch p))
      | IN_QUOTED_FIELD \<Rightarrow>
          (case c of
             None \<Rightarrow> Inr p
           | Some ch \<Rightarrow>
               if ch = quotechar then Inr (p\<lparr>pstate := QUOTE_IN_QUOTED_FIELD\<rparr>)
               else Inr (parse_add_char ch p))
      | QUOTE_IN_QUOTED_FIELD \<Rightarrow>
          (case c of
             None \<Rightarrow> Inr ((parse_save_field p)\<lparr>pstate := START_RECORD\<rparr>)
           | Some ch \<Rightarrow>
               if ch = quotechar then Inr ((parse_add_char ch p)\<lparr>pstate := IN_QUOTED_FIELD\<rparr>)
               else if ch = delimiter then Inr ((parse_save_field p)\<lparr>pstate := START_FIELD\<rparr>)
               else if ch = LF \<or> ch = CR then Inr ((parse_save_field p)\<lparr>pstate := EAT_CRNL\<rparr>)
               else Inr ((parse_add_char ch p)\<lparr>pstate := IN_FIELD\<rparr>))
      | EAT_CRNL \<Rightarrow>
          (if c = None then Inr (p\<lparr>pstate := START_RECORD\<rparr>)
           else if is_newline c then Inr p
           else Inl CsvError))"

text \<open>One line: its characters (a NUL byte is an error), then the end-of-line marker.\<close>

fun feed_line :: "char \<Rightarrow> char \<Rightarrow> parser \<Rightarrow> string \<Rightarrow> exn + parser" where
  "feed_line delimiter quotechar p [] = parse_process_char delimiter quotechar p None"
| "feed_line delimiter quotechar p (c # cs) =
     (if c = NUL then Inl CsvError
      else case parse_process_char delimiter quotechar p (Some c) of
             Inl ex \<Rightarrow> Inl ex
           | Inr p' \<Rightarrow> feed_line delimiter quotechar p' cs)"

text \<open>
  What iterating over the reader yields: the records in order, up to the first error.
  At the end of the input a pending field completes a last record.
\<close>

fun csv_reader :: "char \<Rightarrow> char \<Rightarrow> parser \<Rightarrow> string list \<Rightarrow> (exn + string list) list" where
  "csv_reader delimiter quotechar p [] =
     (if cur_field p \<noteq> [] \<or> pstate p = IN_QUOTED_FIELD then [Inr (rec_fields (parse_save_field p))] else [])"
| "csv_reader delimiter quotechar p (line # lines) =
     (case feed_line delimiter quotechar p line of
        Inl ex \<Rightarrow> [Inl ex]
      | Inr p' \<Rightarrow>
          if pstate p' \<noteq> START_RECORD then csv_reader delimiter quotechar p' lines
          else Inr (rec_fields p') # csv_reader delimiter quotechar parse_reset lines)"

text \<open>
  The loop of \<^verbatim>\<open>read_route\<close>:
  \<^verbatim>\<open>for row in csv_reader:
      x, y, z = row
      imported_points.append({'x': float(x), 'y': float(y), 'z': float(z)})\<close>
  Unpacking a row that has not three fields raises ValueError, and so does \<^verbatim>\<open>float\<close> on
  a text that is not a number.
\<close>

fun import_rows :: "env \<Rightarrow> (exn + string list) list \<Rightarrow> point list \<Rightarrow> exn + point list" where
  "import_rows e [] imported_points = Inr imported_points"
| "import_rows e (Inl ex # rows) imported_points = Inl ex"
| "import_rows e (Inr row # rows) imported_points =
     (case row of
        [x, y, z] \<Rightarrow>
          (case float_of_string e x of
             None \<Rightarrow> Inl ValueError
           | Some fx \<Rightarrow>
               (case float_of_string e y of
                  None \<Rightarrow> Inl ValueError
                | Some fy \<Rightarrow>
                    (case float_of_string e z of
                       None \<Rightarrow> Inl ValueError
                     | Some fz \<Rightarrow>
                         import_rows e rows
                           (imported_points @ [\<lparr>pt_x = fx, pt_y = fy, pt_z = fz\<rparr>]))))
      | _ \<Rightarrow> Inl ValueError)"

text \<open>
  \<^verbatim>\<open>read_route\<close> returns the list of points, or \<^verbatim>\<open>None\<close> when the file cannot be opened
  (the \<^verbatim>\<open>except\<close> branch only logs, and the function ends without a \<^verbatim>\<open>return\<close>).
\<close>

definition read_route :: "env \<Rightarrow> string \<Rightarrow> world \<Rightarrow> (exn + point list option) \<times> world" where
  "read_route e filename s =
     (case files s filename of
        None \<Rightarrow> (Inr None, logging_error (FileCantBeOpened filename) s)
      | Some content \<Rightarrow>
          (case import_rows e (csv_reader (CHR '','') (CHR ''|'') parse_reset (file_lines [] content)) [] of
             Inl ex \<Rightarrow> (Inl ex, s)
           | Inr imported_points \<Rightarrow> (Inr (Some imported_points), s)))"

section \<open>Route playback\<close>

text \<open>
  A flight function is called as
  \<^verbatim>\<open>flight_function(x=..., y=..., z=..., speed=..., frame_id=...)\<close>; it may return, raise or
  never return.
\<close>

type_synonym flight_function =
  "pyfloat \<Rightarrow> pyfloat \<Rightarrow> pyfloat \<Rightarrow> pyfloat \<Rightarrow> string \<Rightarrow> world \<Rightarrow> outcome \<times> world"

fun fly_route ::
  "point list \<Rightarrow> flight_function \<Rightarrow> pyfloat \<Rightarrow> real \<Rightarrow> pyfloat \<Rightarrow> string \<Rightarrow> world \<Rightarrow> outcome \<times> world" where
  "fly_route [] flight_function z delay speed frame_id s = (Returned, s)"
| "fly_route (point # route) flight_function z delay speed frame_id s =
     (let z_result = pt_z point;
          z_result = (if \<not> isnan z then z else z_result)
      in case flight_function (pt_x point) (pt_y point) z_result speed frame_id s of
           (Raised ex, s1) \<Rightarrow> (Raised ex, s1)
         | (Timeout, s1) \<Rightarrow> (Timeout, s1)
         | (_, s1) \<Rightarrow> fly_route route flight_function z delay speed frame_id (time_sleep delay s1))"

text \<open>The default flight function: \<^verbatim>\<open>reach_point\<close> with its own defaults for the rest.\<close>

definition reach_point_default :: "nat \<Rightarrow> env \<Rightarrow> flight_function" where
  "reach_point_default n e x y z speed frame_id = reach_point n e x y z NaN speed TOLERANCE frame_id"

section \<open>Notions used in the statements\<close>

text \<open>
  \<open>is_navigate\<close> recognises a motion command in the trace; \<open>pose_distance\<close> is the
  distance that \<^verbatim>\<open>reach_point\<close> computes for the \<open>i\<close>-th telemetry sample, or the
  exception that computing it raises. \<open>world0\<close> is the world before anything has
  happened, and \<open>poses_env p\<close> is an environment whose \<open>i\<close>-th telemetry sample is the
  finite pose \<open>p i\<close>; both serve as concrete inputs. The arithmetic of \<open>poses_env\<close> is
  \<open>exact_arith\<close>, which does not round: it is the arithmetic of doubles wherever every
  intermediate result is a double, as it is in the concrete runs below.
\<close>

fun is_navigate :: "event \<Rightarrow> bool" where
  "is_navigate (Navigate _) = True"
| "is_navigate _ = False"

definition exact_arith :: float_arith where
  "exact_arith = \<lparr>add_double = (\<lambda>a b. Fin (a + b)), square_double = (\<lambda>a. Fin (a ^ 2)),
     sqrt_double = (\<lambda>a. Fin (sqrt a))\<rparr>"

definition pose_distance ::
  "env \<Rightarrow> string \<Rightarrow> pyfloat \<Rightarrow> pyfloat \<Rightarrow> pyfloat \<Rightarrow> nat \<Rightarrow> exn + pyfloat" where
  "pose_distance e frame_id x y z i =
     (let t = telemetry e frame_id i in get_distance (doubles e) x y z (tel_x t) (tel_y t) (tel_z t))"

definition world0 :: world where
  "world0 = \<lparr>trace = [], reads = 0, clock = 0, files = Map.empty\<rparr>"

definition poses_env :: "(nat \<Rightarrow> real \<times> real \<times> real) \<Rightarrow> env" where
  "poses_env p =
     \<lparr>doubles = exact_arith,
      telemetry = (\<lambda>frame_id i. case p i of (a, b, c) \<Rightarrow> \<lparr>tel_x = Fin a, tel_y = Fin b, tel_z = Fin c\<rparr>),
      float_repr = (\<lambda>v. []), float_of_string = (\<lambda>t. None), open_for_writing_fails = (\<lambda>f. False)\<rparr>"

text \<open>
  \<open>probe\<close> is a flight function that only records its call. \<open>perform\<close> runs a list of
  playback steps with a given flight function, stopping at a call that raises or does not
  return. \<open>flown_altitudes\<close> reads the altitudes of the recorded calls off a trace.
\<close>

definition probe :: flight_function where
  "probe x y z speed frame_id s = (Returned, emit (FlightCall x y z speed frame_id) s)"

datatype step = Invoke pyfloat pyfloat pyfloat pyfloat string | Settle real

fun perform :: "flight_function \<Rightarrow> step list \<Rightarrow> world \<Rightarrow> outcome \<times> world" where
  "perform ff [] s = (Returned, s)"
| "perform ff (Invoke x y z speed frame_id # steps) s =
     (case ff x y z speed frame_id s of
        (Raised ex, s1) \<Rightarrow> (Raised ex, s1)
      | (Timeout, s1) \<Rightarrow> (Timeout, s1)
      | (_, s1) \<Rightarrow> perform ff steps s1)"
| "perform ff (Settle delay # steps) s = perform ff steps (time_sleep delay s)"

fun flown_altitudes :: "event list \<Rightarrow> pyfloat list" where
  "flown_altitudes [] = []"
| "flown_altitudes (FlightCall x y z speed frame_id # evs) = z # flown_altitudes evs"
| "flown_altitudes (ev # evs) = flown_altitudes evs"

fun is_finite :: "pyfloat \<Rightarrow> bool" where
  "is_finite (Fin a) = True"
| "is_finite _ = False"

text \<open>
  \<open>sleep_until a s\<close> is the world \<open>s\<close> after sleeping up to tick \<open>a\<close>;
  \<open>take_sample\<close> is the body of the recording loop between its two inner loops (read the
  telemetry, write the row, log); \<open>first_stop stop_trigger c T\<close> says that \<open>T\<close> is the
  first tick from \<open>c\<close> on at which the stop trigger is set.
\<close>

definition sleep_until :: "nat \<Rightarrow> world \<Rightarrow> world" where
  "sleep_until a s = s\<lparr>trace := trace s @ replicate (a - clock s) RateSleep, clock := a\<rparr>"

definition take_sample :: "env \<Rightarrow> string \<Rightarrow> string \<Rightarrow> world \<Rightarrow> world" where
  "take_sample e filename frame_id s =
     (let t = telemetry e frame_id (reads s)
      in loginfo (AddPoint (tel_x t) (tel_y t) (tel_z t) filename)
           (file_write filename (telem_row e t) (snd (get_telemetry e frame_id s))))"

definition first_stop :: "trigger \<Rightarrow> nat \<Rightarrow> nat \<Rightarrow> bool" where
  "first_stop stop_trigger c T = (c \<le> T \<and> stop_trigger T \<and> (\<forall>t\<in>{c..<T}. \<not> stop_trigger t))"

text \<open>
  \<open>rises prev bs\<close> counts the changes from cleared to set in the successive states \<open>bs\<close>
  of a trigger whose state before them was \<open>prev\<close>. \<open>rising_edges add_trigger c T\<close> is the
  number of rising edges of the trigger in the ticks \<open>c, ..., T\<close>, the trigger counting as
  cleared before tick \<open>c\<close>. \<open>recorded_rows e frame_id i j\<close> is the text of the rows for the
  telemetry samples \<open>i, ..., j - 1\<close>.
\<close>

fun rises :: "bool \<Rightarrow> bool list \<Rightarrow> nat" where
  "rises prev [] = 0"
| "rises prev (b # bs) = (if b \<and> \<not> prev then 1 else 0) + rises b bs"

definition rising_edges :: "trigger \<Rightarrow> nat \<Rightarrow> nat \<Rightarrow> nat" where
  "rising_edges add_trigger c T = rises False (map add_trigger [c..<Suc T])"

definition recorded_rows :: "env \<Rightarrow> string \<Rightarrow> nat \<Rightarrow> nat \<Rightarrow> string" where
  "recorded_rows e frame_id i j = concat (map (\<lambda>k. telem_row e (telemetry e frame_id k)) [i..<j])"

text \<open>
  \<open>plain_text f\<close> holds of a non-empty text without the delimiter, either quote character,
  a line character or a NUL byte; \<open>row_text\<close> is the line of three such fields;
  \<open>written_point t\<close> is the sample \<open>t\<close> as a point; \<open>reads_back e t\<close> says that
  \<^verbatim>\<open>float\<close> parses the written text of each coordinate of \<open>t\<close> back to that coordinate,
  as it does for the \<^verbatim>\<open>repr\<close> of every Python float.
\<close>

definition plain_char :: "char \<Rightarrow> bool" where
  "plain_char c = (c \<noteq> CHR '','' \<and> c \<noteq> CHR 0x22 \<and> c \<noteq> CHR ''|'' \<and> c \<noteq> CR \<and> c \<noteq> LF \<and> c \<noteq> NUL)"

definition plain_text :: "string \<Rightarrow> bool" where
  "plain_text f = (f \<noteq> [] \<and> list_all plain_char f)"

definition row_text :: "string \<Rightarrow> string \<Rightarrow> string \<Rightarrow> string" where
  "row_text fx fy fz = fx @ CHR '','' # fy @ CHR '','' # fz @ [CR, LF]"

definition written_point :: "telem \<Rightarrow> point" where
  "written_point t = \<lparr>pt_x = tel_x t, pt_y = tel_y t, pt_z = tel_z t\<rparr>"

definition reads_back :: "env \<Rightarrow> telem \<Rightarrow> bool" where
  "reads_back e t =
     (float_of_string e (float_repr e (tel_x t)) = Some (tel_x t)
      \<and> float_of_string e (float_repr e (tel_y t)) = Some (tel_y t)
      \<and> float_of_string e (float_repr e (tel_z t)) = Some (tel_z t))"

text \<open>
  A small environment for concrete runs: the vehicle stays at \<open>(1, 2, 4.5)\<close>, and the
  text conversions are those of Python on the few values that occur.
\<close>

definition demo_repr :: "pyfloat \<Rightarrow> string" where
  "demo_repr v = (if v = Fin 1 then ''1.0'' else if v = Fin 2 then ''2.0''
     else if v = Fin (9 / 2) then ''4.5'' else ''nan'')"

definition demo_float :: "string \<Rightarrow> pyfloat option" where
  "demo_float t = (if t = ''1.0'' then Some (Fin 1) else if t = ''2.0'' then Some (Fin 2)
     else if t = ''4.5'' then Some (Fin (9 / 2)) else if t = ''nan'' then Some NaN else None)"

definition demo_env :: env where
  "demo_env = (poses_env (\<lambda>i. (1, 2, 9 / 2)))\<lparr>float_repr := demo_repr, float_of_string := demo_float\<rparr>"

section \<open>Basic facts about the primitives\<close>

lemma emit_fields [simp]:
  "trace (emit ev s) = trace s @ [ev]" "reads (emit ev s) = reads s"
  "clock (emit ev s) = clock s" "files (emit ev s) = files s"
  by (simp_all add: emit_def)

lemma log_fields [simp]:
  "trace (loginfo l s) = trace s @ [Loginfo l]" "reads (loginfo l s) = reads s"
  "clock (loginfo l s) = clock s" "files (loginfo l s) = files s"
  "trace (logdebug l s) = trace s @ [Logdebug l]" "reads (logdebug l s) = reads s"
  "clock (logdebug l s) = clock s" "files (logdebug l s) = files s"
  "trace (logging_error l s) = trace s @ [LoggingError l]" "reads (logging_error l s) = reads s"
  "clock (logging_error l s) = clock s" "files (logging_error l s) = files s"
  by (simp_all add: loginfo_def logdebug_def logging_error_def)

lemma navigate_fields [simp]:
  "trace (navigate req s) = trace s @ [Navigate req]" "reads (navigate req s) = reads s"
  "clock (navigate req s) = clock s" "files (navigate req s) = files s"
  by (simp_all add: navigate_def)

lemma rate_sleep_fields [simp]:
  "trace (rate_sleep s) = trace s @ [RateSleep]" "reads (rate_sleep s) = reads s"
  "clock (rate_sleep s) = Suc (clock s)" "files (rate_sleep s) = files s"
  by (simp_all add: rate_sleep_def)

lemma time_sleep_fields [simp]:
  "trace (time_sleep d s) = trace s @ [TimeSleep d]" "reads (time_sleep d s) = reads s"
  "clock (time_sleep d s) = clock s" "files (time_sleep d s) = files s"
  by (simp_all add: time_sleep_def)

lemma get_telemetry_fields [simp]:
  "fst (get_telemetry e frame_id s) = telemetry e frame_id (reads s)"
  "trace (snd (get_telemetry e frame_id s)) = trace s @ [GetTelemetry frame_id]"
  "reads (snd (get_telemetry e frame_id s)) = Suc (reads s)"
  "clock (snd (get_telemetry e frame_id s)) = clock s"
  "files (snd (get_telemetry e frame_id s)) = files s"
  by (simp_all add: get_telemetry_def)

section \<open>The distance in exact arithmetic\<close>

lemma get_distance_exact:
  "get_distance exact_arith (Fin a1) (Fin b1) (Fin c1) (Fin a2) (Fin b2) (Fin c2) =
     Inr (Fin (sqrt ((a1 - a2)\<^sup>2 + (b1 - b2)\<^sup>2 + (c1 - c2)\<^sup>2)))"
  by (simp add: get_distance_def fsub_def exact_arith_def not_less)

section \<open>The arrival poller\<close>

lemma reach_loop_stop:
  "\<not> fgt delta tolerance \<Longrightarrow> reach_loop n e x y z tolerance frame_id delta s = (Finished, s)"
  by (cases n) simp_all

lemma reach_loop_trace:
  "\<exists>rest. trace (snd (reach_loop n e x y z tolerance frame_id delta s)) = trace s @ rest
      \<and> filter is_navigate rest = []"
proof (induction n arbitrary: delta s)
  case 0
  show ?case by simp
next
  case (Suc n)
  show ?case
  proof (cases "fgt delta tolerance")
    case False
    then show ?thesis by simp
  next
    case True
    show ?thesis
    proof (cases "get_distance (doubles e) x y z (tel_x (telemetry e frame_id (reads s)))
        (tel_y (telemetry e frame_id (reads s))) (tel_z (telemetry e frame_id (reads s)))")
      case (Inl ex)
      with True have "trace (snd (reach_loop (Suc n) e x y z tolerance frame_id delta s)) =
          trace s @ [GetTelemetry frame_id]"
        by (simp add: Let_def split_def)
      then show ?thesis by simp
    next
      case d: (Inr d)
      let ?s3 = "rate_sleep (logdebug (DistanceRemaining d) (snd (get_telemetry e frame_id s)))"
      from Suc.IH [of d ?s3] obtain rest where
        r: "trace (snd (reach_loop n e x y z tolerance frame_id d ?s3)) = trace ?s3 @ rest"
           "filter is_navigate rest = []" by blast
      have "trace ?s3 = trace s @ [GetTelemetry frame_id, Logdebug (DistanceRemaining d), RateSleep]"
        by simp
      with r True d show ?thesis
        by (simp add: Let_def split_def)
    qed
  qed
qed

lemma takeoff_loop_trace:
  "\<exists>rest. trace (snd (takeoff_loop n e height tolerance frame_id start climb s)) = trace s @ rest
      \<and> filter is_navigate rest = []"
proof (induction n arbitrary: climb s)
  case 0
  show ?case by simp
next
  case (Suc n)
  show ?case
  proof (cases "fgt (fabs (fsub (doubles e) climb height)) tolerance")
    case False
    then show ?thesis by simp
  next
    case True
    let ?c = "fabs (fsub (doubles e) (tel_z (telemetry e frame_id (reads s))) (tel_z start))"
    let ?s3 = "rate_sleep (logdebug (TakeoffProgress ?c height) (snd (get_telemetry e frame_id s)))"
    from Suc.IH [of ?c ?s3] obtain rest where
      r: "trace (snd (takeoff_loop n e height tolerance frame_id start ?c ?s3)) = trace ?s3 @ rest"
         "filter is_navigate rest = []" by blast
    have "trace ?s3 = trace s @ [GetTelemetry frame_id, Logdebug (TakeoffProgress ?c height), RateSleep]"
      by simp
    with r True show ?thesis
      by (simp add: Let_def split_def)
  qed
qed

lemma reach_loop_arrival:
  "fgt delta tolerance \<Longrightarrow>
   (\<forall>i<k. \<exists>d. get_distance (doubles e) x y z (tel_x (telemetry e frame_id (reads s + i)))
        (tel_y (telemetry e frame_id (reads s + i))) (tel_z (telemetry e frame_id (reads s + i))) = Inr d
        \<and> fgt d tolerance) \<Longrightarrow>
   (\<exists>d. get_distance (doubles e) x y z (tel_x (telemetry e frame_id (reads s + k)))
        (tel_y (telemetry e frame_id (reads s + k))) (tel_z (telemetry e frame_id (reads s + k))) = Inr d
        \<and> \<not> fgt d tolerance) \<Longrightarrow>
   k < n \<Longrightarrow>
   fst (reach_loop n e x y z tolerance frame_id delta s) = Finished
   \<and> reads (snd (reach_loop n e x y z tolerance frame_id delta s)) = reads s + k + 1
   \<and> clock (snd (reach_loop n e x y z tolerance frame_id delta s)) = clock s + k + 1"
proof (induction k arbitrary: n delta s)
  case 0
  then obtain m where n: "n = Suc m" by (cases n) auto
  from 0 obtain d where d: "get_distance (doubles e) x y z (tel_x (telemetry e frame_id (reads s)))
        (tel_y (telemetry e frame_id (reads s))) (tel_z (telemetry e frame_id (reads s))) = Inr d"
        "\<not> fgt d tolerance" by auto
  with 0 show ?case
    by (simp add: n Let_def split_def reach_loop_stop)
next
  case (Suc k)
  then obtain m where n: "n = Suc m" and km: "k < m" by (cases n) auto
  from Suc.prems(2) obtain d where d: "get_distance (doubles e) x y z (tel_x (telemetry e frame_id (reads s)))
        (tel_y (telemetry e frame_id (reads s))) (tel_z (telemetry e frame_id (reads s))) = Inr d"
        "fgt d tolerance" by force
  let ?s3 = "rate_sleep (logdebug (DistanceRemaining d) (snd (get_telemetry e frame_id s)))"
  have rs: "reads ?s3 = Suc (reads s)" "clock ?s3 = Suc (clock s)"
    by simp_all
  have a: "\<forall>i<k. \<exists>d. get_distance (doubles e) x y z (tel_x (telemetry e frame_id (reads ?s3 + i)))
        (tel_y (telemetry e frame_id (reads ?s3 + i))) (tel_z (telemetry e frame_id (reads ?s3 + i))) = Inr d
        \<and> fgt d tolerance"
    using Suc.prems(2) unfolding rs by (metis Suc_less_eq add_Suc_shift)
  have b: "\<exists>d. get_distance (doubles e) x y z (tel_x (telemetry e frame_id (reads ?s3 + k)))
        (tel_y (telemetry e frame_id (reads ?s3 + k))) (tel_z (telemetry e frame_id (reads ?s3 + k))) = Inr d
        \<and> \<not> fgt d tolerance"
    using Suc.prems(3) unfolding rs by simp
  from Suc.IH [OF d(2) a b km] rs
  have "fst (reach_loop m e x y z tolerance frame_id d ?s3) = Finished
   \<and> reads (snd (reach_loop m e x y z tolerance frame_id d ?s3)) = reads s + Suc k + 1
   \<and> clock (snd (reach_loop m e x y z tolerance frame_id d ?s3)) = clock s + Suc k + 1"
    by simp
  with Suc.prems(1) d show ?case
    by (simp add: n Let_def split_def)
qed

text \<open>
  Claim C1, as amended. Arrival is decided on the distance \<^verbatim>\<open>delta\<close> that
  \<^verbatim>\<open>get_distance\<close> computes, and the loop of \<^verbatim>\<open>reach_point\<close> continues only while
  \<^verbatim>\<open>delta > tolerance\<close>. So a computed distance equal to the tolerance is an arrival, as
  is a smaller one: when the computed distances of the first \<open>k\<close> poses read are greater
  than the tolerance and that of the next pose is not, \<^verbatim>\<open>reach_point\<close> returns at that
  pose, after \<open>k + 1\<close> telemetry reads and \<open>k\<close> poll ticks.
\<close>

theorem reach_point_tolerance_boundary:
  assumes far: "\<forall>i<k. \<exists>d. pose_distance e frame_id x y z (reads s + i) = Inr d \<and> fgt d tolerance"
      and near: "\<exists>d. pose_distance e frame_id x y z (reads s + k) = Inr d \<and> \<not> fgt d tolerance"
      and fuel: "k \<le> n"
  shows "fst (reach_point n e x y z yaw speed tolerance frame_id s) = Returned
     \<and> reads (snd (reach_point n e x y z yaw speed tolerance frame_id s)) = reads s + k + 1
     \<and> clock (snd (reach_point n e x y z yaw speed tolerance frame_id s)) = clock s + k"
proof -
  let ?s4 = "logdebug NavigateResult (navigate \<lparr>nav_x = x, nav_y = y, nav_z = z, nav_yaw = yaw,
      nav_speed = speed, nav_frame_id = frame_id, nav_auto_arm = False\<rparr>
      (snd (get_telemetry e frame_id (loginfo (ReachingPoint x y z) s))))"
  have rs: "reads ?s4 = Suc (reads s)" "clock ?s4 = clock s"
    by simp_all
  show ?thesis
  proof (cases k)
    case 0
    with near obtain d where d: "pose_distance e frame_id x y z (reads s) = Inr d" "\<not> fgt d tolerance"
      by auto
    then show ?thesis
      using 0
      by (simp add: reach_point_def pose_distance_def Let_def split_def reach_loop_stop)
  next
    case (Suc j)
    with far obtain d where d: "pose_distance e frame_id x y z (reads s) = Inr d" "fgt d tolerance"
      by force
    have a: "\<forall>i<j. \<exists>d. get_distance (doubles e) x y z (tel_x (telemetry e frame_id (reads ?s4 + i)))
        (tel_y (telemetry e frame_id (reads ?s4 + i))) (tel_z (telemetry e frame_id (reads ?s4 + i))) = Inr d
        \<and> fgt d tolerance"
      using far Suc unfolding rs pose_distance_def Let_def by (metis Suc_less_eq add_Suc_shift)
    have b: "\<exists>d. get_distance (doubles e) x y z (tel_x (telemetry e frame_id (reads ?s4 + j)))
        (tel_y (telemetry e frame_id (reads ?s4 + j))) (tel_z (telemetry e frame_id (reads ?s4 + j))) = Inr d
        \<and> \<not> fgt d tolerance"
      using near Suc unfolding rs pose_distance_def Let_def by simp
    have jn: "j < n" using fuel Suc by simp
    obtain r s5 where loop: "reach_loop n e x y z tolerance frame_id d ?s4 = (r, s5)"
      by (cases "reach_loop n e x y z tolerance frame_id d ?s4")
    from reach_loop_arrival [OF d(2) a b jn] rs Suc loop
    have fin: "r = Finished" "reads s5 = reads s + k + 1" "clock s5 = clock s + k"
      by simp_all
    have "reach_point n e x y z yaw speed tolerance frame_id s =
        (case reach_loop n e x y z tolerance frame_id d ?s4 of
           (Finished, s5) \<Rightarrow> (Returned, loginfo PointReached s5) | r \<Rightarrow> r)"
      using d(1) by (simp add: reach_point_def pose_distance_def Let_def split_def)
    then show ?thesis
      using fin by (simp add: loop)
  qed
qed

text \<open>
  The vehicle is first at distance \<open>3\<close> and then at distance \<open>1\<close> from the target, the
  tolerance being \<open>1\<close>: the second pose, exactly at the tolerance, ends the loop.
\<close>

theorem reach_point_tolerance_boundary_witness:
  "pose_distance (poses_env (\<lambda>i. if i = 0 then (0, 0, 3) else (0, 0, 1))) LOCAL_FRAME_ID
      (Fin 0) (Fin 0) (Fin 0) 1 = Inr (Fin 1)
   \<and> fst (reach_point 1 (poses_env (\<lambda>i. if i = 0 then (0, 0, 3) else (0, 0, 1)))
          (Fin 0) (Fin 0) (Fin 0) NaN SPEED (Fin 1) LOCAL_FRAME_ID world0) = Returned
   \<and> reads (snd (reach_point 1 (poses_env (\<lambda>i. if i = 0 then (0, 0, 3) else (0, 0, 1)))
          (Fin 0) (Fin 0) (Fin 0) NaN SPEED (Fin 1) LOCAL_FRAME_ID world0)) = 2
   \<and> clock (snd (reach_point 1 (poses_env (\<lambda>i. if i = 0 then (0, 0, 3) else (0, 0, 1)))
          (Fin 0) (Fin 0) (Fin 0) NaN SPEED (Fin 1) LOCAL_FRAME_ID world0)) = 1"
  using reach_point_tolerance_boundary [of 1 "poses_env (\<lambda>i. if i = 0 then (0, 0, 3) else (0, 0, 1))"
      LOCAL_FRAME_ID "Fin 0" "Fin 0" "Fin 0" world0 "Fin 1" 1 NaN SPEED]
  by (simp add: pose_distance_def poses_env_def get_distance_exact world0_def)

text \<open>
  The claim C1 as it is stated fails: a vehicle at distance exactly \<open>1\<close> from the
  target, with tolerance \<open>1\<close>, has arrived; \<^verbatim>\<open>reach_point\<close> returns without a single
  iteration of its loop.
\<close>

theorem pose_at_tolerance_arrives:
  "pose_distance (poses_env (\<lambda>i. (0, 0, 1))) LOCAL_FRAME_ID (Fin 0) (Fin 0) (Fin 0) 0 = Inr (Fin 1)
   \<and> reach_point 0 (poses_env (\<lambda>i. (0, 0, 1))) (Fin 0) (Fin 0) (Fin 0) NaN SPEED (Fin 1) LOCAL_FRAME_ID world0
     = (Returned, world0\<lparr>trace := [Loginfo (ReachingPoint (Fin 0) (Fin 0) (Fin 0)), GetTelemetry LOCAL_FRAME_ID,
          Navigate \<lparr>nav_x = Fin 0, nav_y = Fin 0, nav_z = Fin 0, nav_yaw = NaN, nav_speed = SPEED,
            nav_frame_id = LOCAL_FRAME_ID, nav_auto_arm = False\<rparr>,
          Logdebug NavigateResult, Loginfo PointReached], reads := 1\<rparr>)"
  by (simp add: pose_distance_def poses_env_def get_distance_exact reach_point_def get_telemetry_def
      world0_def loginfo_def logdebug_def navigate_def emit_def)

text \<open>
  Claim C8. Whatever the telemetry and however long the polling lasts (any fuel \<open>n\<close>,
  whether the call returns, raises or is still polling), the trace of \<^verbatim>\<open>takeoff\<close> and of
  \<^verbatim>\<open>reach_point\<close> starts with one log line, one telemetry read and one motion command,
  and nothing after it is a motion command. The command of \<^verbatim>\<open>takeoff\<close> requests
  auto-arm, the command of \<^verbatim>\<open>reach_point\<close> does not.
\<close>

theorem navigate_issued_once_up_front:
  "(\<exists>rest. trace (snd (takeoff n e height speed tolerance frame_id s)) =
       trace s @ [Loginfo TakeoffStarted, GetTelemetry frame_id,
         Navigate \<lparr>nav_x = tel_x (telemetry e frame_id (reads s)),
           nav_y = tel_y (telemetry e frame_id (reads s)),
           nav_z = fadd (doubles e) (tel_z (telemetry e frame_id (reads s))) height, nav_yaw = NaN,
           nav_speed = speed, nav_frame_id = frame_id, nav_auto_arm = True\<rparr>,
         Logdebug NavigateResult] @ rest
       \<and> filter is_navigate rest = [])
   \<and> (\<exists>rest. trace (snd (reach_point n e x y z yaw speed tolerance frame_id s)) =
       trace s @ [Loginfo (ReachingPoint x y z), GetTelemetry frame_id,
         Navigate \<lparr>nav_x = x, nav_y = y, nav_z = z, nav_yaw = yaw,
           nav_speed = speed, nav_frame_id = frame_id, nav_auto_arm = False\<rparr>,
         Logdebug NavigateResult] @ rest
       \<and> filter is_navigate rest = [])"
proof
  let ?start = "telemetry e frame_id (reads s)"
  let ?s4 = "logdebug NavigateResult (navigate \<lparr>nav_x = tel_x ?start, nav_y = tel_y ?start,
      nav_z = fadd (doubles e) (tel_z ?start) height, nav_yaw = NaN, nav_speed = speed,
      nav_frame_id = frame_id, nav_auto_arm = True\<rparr>
      (snd (get_telemetry e frame_id (loginfo TakeoffStarted s))))"
  obtain r s5 where loop: "takeoff_loop n e height tolerance frame_id ?start (Fin 0) ?s4 = (r, s5)"
    by (cases "takeoff_loop n e height tolerance frame_id ?start (Fin 0) ?s4")
  from takeoff_loop_trace [of n e height tolerance frame_id ?start "Fin 0" ?s4] loop
  obtain rest where rest: "trace s5 = trace ?s4 @ rest" "filter is_navigate rest = []"
    by auto
  have "takeoff n e height speed tolerance frame_id s =
      (case r of Finished \<Rightarrow> (Returned, loginfo TakeoffSucceeded s5) | _ \<Rightarrow> (r, s5))"
    using loop by (simp add: takeoff_def Let_def split_def split: outcome.splits)
  then have "trace (snd (takeoff n e height speed tolerance frame_id s)) =
      trace ?s4 @ (case r of Finished \<Rightarrow> rest @ [Loginfo TakeoffSucceeded] | _ \<Rightarrow> rest)"
    using rest(1) by (simp split: outcome.splits)
  moreover have "filter is_navigate (case r of Finished \<Rightarrow> rest @ [Loginfo TakeoffSucceeded] | _ \<Rightarrow> rest) = []"
    using rest(2) by (simp split: outcome.splits)
  ultimately show "\<exists>rest. trace (snd (takeoff n e height speed tolerance frame_id s)) =
       trace s @ [Loginfo TakeoffStarted, GetTelemetry frame_id,
         Navigate \<lparr>nav_x = tel_x ?start, nav_y = tel_y ?start,
           nav_z = fadd (doubles e) (tel_z ?start) height, nav_yaw = NaN,
           nav_speed = speed, nav_frame_id = frame_id, nav_auto_arm = True\<rparr>,
         Logdebug NavigateResult] @ rest
       \<and> filter is_navigate rest = []"
    by simp
next
  let ?t = "telemetry e frame_id (reads s)"
  let ?s4 = "logdebug NavigateResult (navigate \<lparr>nav_x = x, nav_y = y, nav_z = z, nav_yaw = yaw,
      nav_speed = speed, nav_frame_id = frame_id, nav_auto_arm = False\<rparr>
      (snd (get_telemetry e frame_id (loginfo (ReachingPoint x y z) s))))"
  show "\<exists>rest. trace (snd (reach_point n e x y z yaw speed tolerance frame_id s)) =
       trace s @ [Loginfo (ReachingPoint x y z), GetTelemetry frame_id,
         Navigate \<lparr>nav_x = x, nav_y = y, nav_z = z, nav_yaw = yaw,
           nav_speed = speed, nav_frame_id = frame_id, nav_auto_arm = False\<rparr>,
         Logdebug NavigateResult] @ rest
       \<and> filter is_navigate rest = []"
  proof (cases "get_distance (doubles e) x y z (tel_x ?t) (tel_y ?t) (tel_z ?t)")
    case (Inl ex)
    then have "trace (snd (reach_point n e x y z yaw speed tolerance frame_id s)) = trace ?s4"
      by (simp add: reach_point_def Let_def split_def)
    then show ?thesis by simp
  next
    case d: (Inr d)
    obtain r s5 where loop: "reach_loop n e x y z tolerance frame_id d ?s4 = (r, s5)"
      by (cases "reach_loop n e x y z tolerance frame_id d ?s4")
    from reach_loop_trace [of n e x y z tolerance frame_id d ?s4] loop
    obtain rest where rest: "trace s5 = trace ?s4 @ rest" "filter is_navigate rest = []"
      by auto
    have "reach_point n e x y z yaw speed tolerance frame_id s =
        (case r of Finished \<Rightarrow> (Returned, loginfo PointReached s5) | _ \<Rightarrow> (r, s5))"
      using loop d by (simp add: reach_point_def Let_def split_def split: outcome.splits)
    then have "trace (snd (reach_point n e x y z yaw speed tolerance frame_id s)) =
        trace ?s4 @ (case r of Finished \<Rightarrow> rest @ [Loginfo PointReached] | _ \<Rightarrow> rest)"
      using rest(1) by (simp split: outcome.splits)
    moreover have "filter is_navigate (case r of Finished \<Rightarrow> rest @ [Loginfo PointReached] | _ \<Rightarrow> rest) = []"
      using rest(2) by (simp split: outcome.splits)
    ultimately show ?thesis by simp
  qed
qed

text \<open>
  Claim C9. The first arrival check of \<^verbatim>\<open>reach_point\<close> uses the pose read before the
  motion command. When that pose is within the tolerance, \<^verbatim>\<open>reach_point\<close> returns
  with any fuel, even none: it has read the telemetry once, issued the command once and
  never slept.
\<close>

theorem reach_point_already_within_tolerance:
  assumes "pose_distance e frame_id x y z (reads s) = Inr d" and "\<not> fgt d tolerance"
  shows "reach_point n e x y z yaw speed tolerance frame_id s =
     (Returned, s\<lparr>trace := trace s @ [Loginfo (ReachingPoint x y z), GetTelemetry frame_id,
          Navigate \<lparr>nav_x = x, nav_y = y, nav_z = z, nav_yaw = yaw, nav_speed = speed,
            nav_frame_id = frame_id, nav_auto_arm = False\<rparr>,
          Logdebug NavigateResult, Loginfo PointReached],
        reads := Suc (reads s)\<rparr>)"
  using assms
  by (simp add: reach_point_def pose_distance_def Let_def split_def reach_loop_stop
      get_telemetry_def loginfo_def logdebug_def navigate_def emit_def)

theorem reach_point_already_within_tolerance_witness:
  "pose_distance (poses_env (\<lambda>i. (3, 4, 0))) LOCAL_FRAME_ID (Fin 3) (Fin 4) (Fin (1 / 8)) (reads world0)
     = Inr (Fin (1 / 8))
   \<and> \<not> fgt (Fin (1 / 8)) TOLERANCE
   \<and> reach_point 7 (poses_env (\<lambda>i. (3, 4, 0))) (Fin 3) (Fin 4) (Fin (1 / 8)) NaN SPEED TOLERANCE
       LOCAL_FRAME_ID world0 =
     (Returned, world0\<lparr>trace := trace world0 @ [Loginfo (ReachingPoint (Fin 3) (Fin 4) (Fin (1 / 8))),
          GetTelemetry LOCAL_FRAME_ID,
          Navigate \<lparr>nav_x = Fin 3, nav_y = Fin 4, nav_z = Fin (1 / 8), nav_yaw = NaN, nav_speed = SPEED,
            nav_frame_id = LOCAL_FRAME_ID, nav_auto_arm = False\<rparr>,
          Logdebug NavigateResult, Loginfo PointReached],
        reads := Suc (reads world0)\<rparr>)"
proof -
  have d: "pose_distance (poses_env (\<lambda>i. (3, 4, 0))) LOCAL_FRAME_ID (Fin 3) (Fin 4) (Fin (1 / 8))
      (reads world0) = Inr (Fin (1 / 8))"
    by (simp add: pose_distance_def poses_env_def get_distance_exact real_sqrt_abs)
  have t: "\<not> fgt (Fin (1 / 8)) TOLERANCE"
    by (simp add: TOLERANCE_def)
  from reach_point_already_within_tolerance [OF d t, of 7 NaN SPEED] d t show ?thesis
    by simp
qed

section \<open>Route playback: sequencing and altitude\<close>

lemma probe_call:
  "probe x y z speed frame_id s = (Returned, emit (FlightCall x y z speed frame_id) s)"
  by (simp only: probe_def)

lemma fly_route_probe_trace:
  "fly_route route probe z delay speed frame_id s =
     (Returned, s\<lparr>trace := trace s @
        concat (map (\<lambda>p. [FlightCall (pt_x p) (pt_y p) (if isnan z then pt_z p else z) speed frame_id,
                           TimeSleep delay]) route)\<rparr>)"
proof (induction route arbitrary: s)
  case Nil
  show ?case by simp
next
  case (Cons p route)
  have call: "\<And>a. probe (pt_x p) (pt_y p) a speed frame_id s =
      (Returned, emit (FlightCall (pt_x p) (pt_y p) a speed frame_id) s)"
    by (simp only: probe_def)
  show ?case
    by (simp add: call Cons.IH emit_def time_sleep_def)
qed

lemma fly_route_perform:
  "fly_route route ff z delay speed frame_id s =
     perform ff (concat (map (\<lambda>p. [Invoke (pt_x p) (pt_y p) (if isnan z then pt_z p else z) speed frame_id,
                                     Settle delay]) route)) s"
proof (induction route arbitrary: s)
  case Nil
  show ?case by simp
next
  case (Cons p route)
  then show ?case
    by (simp split: prod.splits outcome.splits)
qed

text \<open>
  Claim C2, as amended. For every route and every flight function, \<^verbatim>\<open>fly_route\<close> does
  exactly this, in the order of the route: for each point one call of the flight function
  and then one settle delay. The delay follows every call, the last one included, and
  nothing precedes the first call. Playback stops at a call that raises or does not
  return. With a flight function that only records its call, the trace shows the \<open>N\<close>
  calls in order, each followed by \<^verbatim>\<open>time.sleep(delay)\<close>.
\<close>

theorem fly_route_sequence:
  "fly_route route ff z delay speed frame_id s =
     perform ff (concat (map (\<lambda>p. [Invoke (pt_x p) (pt_y p) (if isnan z then pt_z p else z) speed frame_id,
                                     Settle delay]) route)) s
   \<and> fly_route route probe z delay speed frame_id s =
     (Returned, s\<lparr>trace := trace s @
        concat (map (\<lambda>p. [FlightCall (pt_x p) (pt_y p) (if isnan z then pt_z p else z) speed frame_id,
                           TimeSleep delay]) route)\<rparr>)"
  using fly_route_perform fly_route_probe_trace by simp

text \<open>
  The claim C2 as it is stated fails in its last part: on a route of one point the trace
  ends with the settle delay, after the last (and only) call.
\<close>

theorem fly_route_sleeps_after_last_point:
  "fly_route [\<lparr>pt_x = Fin 0, pt_y = Fin 0, pt_z = Fin 1\<rparr>] probe NaN (1 / 10) SPEED LOCAL_FRAME_ID world0 =
     (Returned, world0\<lparr>trace := [FlightCall (Fin 0) (Fin 0) (Fin 1) SPEED LOCAL_FRAME_ID,
                                  TimeSleep (1 / 10)]\<rparr>)
   \<and> last (trace (snd (fly_route [\<lparr>pt_x = Fin 0, pt_y = Fin 0, pt_z = Fin 1\<rparr>] probe NaN (1 / 10)
        SPEED LOCAL_FRAME_ID world0))) = TimeSleep (1 / 10)"
  by (simp add: probe_call emit_def time_sleep_def world0_def)

lemma flown_altitudes_append:
  "flown_altitudes (xs @ ys) = flown_altitudes xs @ flown_altitudes ys"
  by (induction xs rule: flown_altitudes.induct) simp_all

lemma flown_altitudes_script:
  "flown_altitudes (concat (map (\<lambda>p. [FlightCall (pt_x p) (pt_y p) (h p) speed frame_id,
       TimeSleep delay]) route)) = map h route"
  by (induction route) simp_all

text \<open>
  Claim C3, as amended. The altitude passed to the flight function is the override
  whenever the override is not NaN (an infinite override included), and the stored
  altitude of the point when the override is NaN.
\<close>

theorem fly_route_altitude:
  "flown_altitudes (trace (snd (fly_route route probe z delay speed frame_id s))) =
     flown_altitudes (trace s) @ map (\<lambda>p. if isnan z then pt_z p else z) route"
  by (simp add: fly_route_probe_trace flown_altitudes_append flown_altitudes_script)

text \<open>
  The examples of the claim: route \<open>[(0,0,1), (0,0,2)]\<close> with override \<open>5\<close> flies at
  \<open>5\<close> and \<open>5\<close>; with override NaN it flies at \<open>1\<close> and \<open>2\<close>.
\<close>

theorem fly_route_altitude_witness:
  "flown_altitudes (trace (snd (fly_route
       [\<lparr>pt_x = Fin 0, pt_y = Fin 0, pt_z = Fin 1\<rparr>, \<lparr>pt_x = Fin 0, pt_y = Fin 0, pt_z = Fin 2\<rparr>]
       probe (Fin 5) (1 / 10) SPEED LOCAL_FRAME_ID world0))) = [Fin 5, Fin 5]
   \<and> flown_altitudes (trace (snd (fly_route
       [\<lparr>pt_x = Fin 0, pt_y = Fin 0, pt_z = Fin 1\<rparr>, \<lparr>pt_x = Fin 0, pt_y = Fin 0, pt_z = Fin 2\<rparr>]
       probe NaN (1 / 10) SPEED LOCAL_FRAME_ID world0))) = [Fin 1, Fin 2]"
  using fly_route_altitude [of "[\<lparr>pt_x = Fin 0, pt_y = Fin 0, pt_z = Fin 1\<rparr>,
          \<lparr>pt_x = Fin 0, pt_y = Fin 0, pt_z = Fin 2\<rparr>]" "Fin 5" "1 / 10" SPEED LOCAL_FRAME_ID world0]
        fly_route_altitude [of "[\<lparr>pt_x = Fin 0, pt_y = Fin 0, pt_z = Fin 1\<rparr>,
          \<lparr>pt_x = Fin 0, pt_y = Fin 0, pt_z = Fin 2\<rparr>]" NaN "1 / 10" SPEED LOCAL_FRAME_ID world0]
  by (simp add: world0_def)

text \<open>
  The claim C3 as it is stated fails for an override that is given but not finite: the
  code tests \<^verbatim>\<open>math.isnan\<close> only, so an infinite override is flown, not the stored
  altitude \<open>1\<close>.
\<close>

theorem infinite_override_is_flown:
  "\<not> is_finite PInf
   \<and> flown_altitudes (trace (snd (fly_route [\<lparr>pt_x = Fin 0, pt_y = Fin 0, pt_z = Fin 1\<rparr>]
        probe PInf (1 / 10) SPEED LOCAL_FRAME_ID world0))) = [PInf]"
  by (simp add: probe_call emit_def time_sleep_def world0_def)

section \<open>Route recording: the trigger loops\<close>

lemma sleep_until_now [simp]: "sleep_until (clock s) s = s"
  by (simp add: sleep_until_def)

lemma sleep_until_rate_sleep:
  "clock s < a \<Longrightarrow> sleep_until a (rate_sleep s) = sleep_until a s"
proof -
  assume lt: "clock s < a"
  then have "a - clock s = Suc (a - Suc (clock s))" by simp
  then have "replicate (a - clock s) RateSleep = RateSleep # replicate (a - Suc (clock s)) RateSleep"
    by simp
  then show ?thesis
    by (simp add: sleep_until_def rate_sleep_def emit_def)
qed

lemma sleep_until_fields [simp]:
  "clock (sleep_until a s) = a" "reads (sleep_until a s) = reads s"
  "files (sleep_until a s) = files s"
  by (simp_all add: sleep_until_def)

declare wait_for_add.simps [simp del] wait_for_release.simps [simp del]

lemma wait_for_add_result:
  assumes "first_stop stop_trigger (clock s) T" and "T - clock s \<le> n"
  shows "\<exists>a. clock s \<le> a \<and> a \<le> T \<and> (\<forall>t\<in>{clock s..<a}. \<not> add_trigger t)
     \<and> (\<not> add_trigger a \<longrightarrow> a = T)
     \<and> wait_for_add n filename add_trigger stop_trigger s =
         (if add_trigger a then (Finished, sleep_until a s)
          else (Returned, loginfo (RouteIsCreated filename) (sleep_until a s)))"
  using assms
proof (induction n arbitrary: s)
  case 0
  then have T: "T = clock s" by (simp add: first_stop_def)
  with 0 show ?case
    by (intro exI [of _ "clock s"]) (simp add: first_stop_def is_set_def wait_for_add.simps)
next
  case (Suc n)
  show ?case
  proof (cases "add_trigger (clock s) \<or> stop_trigger (clock s)")
    case True
    have le: "clock s \<le> T" using Suc.prems(1) by (simp add: first_stop_def)
    show ?thesis
    proof (cases "add_trigger (clock s)")
      case True
      then show ?thesis
        using le by (intro exI [of _ "clock s"]) (simp add: is_set_def wait_for_add.simps)
    next
      case no_add: False
      with True have st: "stop_trigger (clock s)" by simp
      have "\<not> clock s < T"
        using Suc.prems(1) st by (auto simp: first_stop_def)
      with le have T: "T = clock s" by simp
      show ?thesis
        using no_add st unfolding T by (intro exI [of _ "clock s"]) (simp add: is_set_def wait_for_add.simps)
    qed
  next
    case False
    then have lt: "clock s < T"
      using Suc.prems(1) by (cases "clock s = T") (auto simp: first_stop_def)
    have fs: "first_stop stop_trigger (clock (rate_sleep s)) T"
      using Suc.prems(1) lt by (auto simp: first_stop_def rate_sleep_def)
    have fuel: "T - clock (rate_sleep s) \<le> n"
      using Suc.prems(2) lt by (simp add: rate_sleep_def)
    from Suc.IH [OF fs fuel] obtain a where a:
      "clock (rate_sleep s) \<le> a" "a \<le> T" "\<forall>t\<in>{clock (rate_sleep s)..<a}. \<not> add_trigger t"
      "\<not> add_trigger a \<longrightarrow> a = T"
      "wait_for_add n filename add_trigger stop_trigger (rate_sleep s) =
         (if add_trigger a then (Finished, sleep_until a (rate_sleep s))
          else (Returned, loginfo (RouteIsCreated filename) (sleep_until a (rate_sleep s))))"
      by blast
    have ca: "clock s < a" using a(1) by (simp add: rate_sleep_def)
    have quiet: "\<forall>t\<in>{clock s..<a}. \<not> add_trigger t"
    proof
      fix t assume "t \<in> {clock s..<a}"
      then show "\<not> add_trigger t"
        using a(3) False by (cases "t = clock s") (auto simp: rate_sleep_def)
    qed
    show ?thesis
      using a(2,4,5) ca quiet False
      by (intro exI [of _ a]) (simp add: is_set_def sleep_until_rate_sleep wait_for_add.simps)
  qed
qed

lemma wait_for_release_result:
  assumes "first_stop stop_trigger (clock s) T" and "T - clock s \<le> n"
  shows "\<exists>b. clock s \<le> b \<and> b \<le> T \<and> (\<forall>t\<in>{clock s..<b}. add_trigger t)
     \<and> (add_trigger b \<longrightarrow> b = T)
     \<and> wait_for_release n filename add_trigger stop_trigger s =
         (if add_trigger b then (Returned, loginfo (RouteIsCreated filename) (sleep_until b s))
          else (Finished, sleep_until b s))"
  using assms
proof (induction n arbitrary: s)
  case 0
  then have T: "T = clock s" by (simp add: first_stop_def)
  with 0 show ?case
    by (intro exI [of _ "clock s"]) (simp add: first_stop_def is_set_def wait_for_release.simps)
next
  case (Suc n)
  show ?case
  proof (cases "\<not> add_trigger (clock s) \<or> stop_trigger (clock s)")
    case True
    have le: "clock s \<le> T" using Suc.prems(1) by (simp add: first_stop_def)
    show ?thesis
    proof (cases "add_trigger (clock s)")
      case False
      then show ?thesis
        using le by (intro exI [of _ "clock s"]) (simp add: is_set_def wait_for_release.simps)
    next
      case held: True
      with True have st: "stop_trigger (clock s)" by simp
      have "\<not> clock s < T"
        using Suc.prems(1) st by (auto simp: first_stop_def)
      with le have T: "T = clock s" by simp
      show ?thesis
        using held st unfolding T by (intro exI [of _ "clock s"]) (simp add: is_set_def wait_for_release.simps)
    qed
  next
    case False
    then have lt: "clock s < T"
      using Suc.prems(1) by (cases "clock s = T") (auto simp: first_stop_def)
    have fs: "first_stop stop_trigger (clock (rate_sleep s)) T"
      using Suc.prems(1) lt by (auto simp: first_stop_def rate_sleep_def)
    have fuel: "T - clock (rate_sleep s) \<le> n"
      using Suc.prems(2) lt by (simp add: rate_sleep_def)
    from Suc.IH [OF fs fuel] obtain b where b:
      "clock (rate_sleep s) \<le> b" "b \<le> T" "\<forall>t\<in>{clock (rate_sleep s)..<b}. add_trigger t"
      "add_trigger b \<longrightarrow> b = T"
      "wait_for_release n filename add_trigger stop_trigger (rate_sleep s) =
         (if add_trigger b then (Returned, loginfo (RouteIsCreated filename) (sleep_until b (rate_sleep s)))
          else (Finished, sleep_until b (rate_sleep s)))"
      by blast
    have cb: "clock s < b" using b(1) by (simp add: rate_sleep_def)
    have held: "\<forall>t\<in>{clock s..<b}. add_trigger t"
    proof
      fix t assume "t \<in> {clock s..<b}"
      then show "add_trigger t"
        using b(3) False by (cases "t = clock s") (auto simp: rate_sleep_def)
    qed
    show ?thesis
      using b(2,4,5) cb held False
      by (intro exI [of _ b]) (simp add: is_set_def sleep_until_rate_sleep wait_for_release.simps)
  qed
qed

lemma file_write_fields [simp]:
  "trace (file_write f txt s) = trace s" "reads (file_write f txt s) = reads s"
  "clock (file_write f txt s) = clock s"
  by (simp_all add: file_write_def)

lemma take_sample_fields [simp]:
  "clock (take_sample e filename frame_id s) = clock s"
  "reads (take_sample e filename frame_id s) = Suc (reads s)"
  by (simp_all add: take_sample_def Let_def)

lemma first_stop_later:
  "first_stop stop_trigger c T \<Longrightarrow> c \<le> a \<Longrightarrow> a \<le> T \<Longrightarrow> first_stop stop_trigger a T"
  by (auto simp: first_stop_def)

declare record_loop.simps [simp del]

lemma record_loop_at_stop:
  "stop_trigger (clock s) \<Longrightarrow>
   record_loop n e filename add_trigger stop_trigger frame_id s = (Finished, s)"
  by (cases n) (simp_all add: is_set_def record_loop.simps)

lemma record_loop_step:
  assumes fs: "first_stop stop_trigger (clock s) T" and lt: "clock s < T"
      and fuel: "T - clock s \<le> Suc m"
  shows "\<exists>a. clock s \<le> a \<and> a \<le> T \<and> (\<forall>t\<in>{clock s..<a}. \<not> add_trigger t) \<and>
    (if \<not> add_trigger a
     then a = T \<and> record_loop (Suc m) e filename add_trigger stop_trigger frame_id s =
            (Returned, loginfo (RouteIsCreated filename) (sleep_until T s))
     else \<exists>b. a \<le> b \<and> b \<le> T \<and> (\<forall>t\<in>{a..<b}. add_trigger t) \<and>
       (if add_trigger b
        then b = T \<and> record_loop (Suc m) e filename add_trigger stop_trigger frame_id s =
               (Returned, loginfo (RouteIsCreated filename)
                  (sleep_until T (take_sample e filename frame_id (sleep_until a s))))
        else a < b \<and> record_loop (Suc m) e filename add_trigger stop_trigger frame_id s =
               record_loop m e filename add_trigger stop_trigger frame_id
                 (sleep_until b (take_sample e filename frame_id (sleep_until a s)))))"
proof -
  have nostop: "\<not> is_set stop_trigger s"
    using fs lt by (simp add: first_stop_def is_set_def)
  from wait_for_add_result [OF fs fuel, of add_trigger filename] obtain a where a:
    "clock s \<le> a" "a \<le> T" "\<forall>t\<in>{clock s..<a}. \<not> add_trigger t" "\<not> add_trigger a \<longrightarrow> a = T"
    "wait_for_add (Suc m) filename add_trigger stop_trigger s =
       (if add_trigger a then (Finished, sleep_until a s)
        else (Returned, loginfo (RouteIsCreated filename) (sleep_until a s)))"
    by blast
  show ?thesis
  proof (cases "add_trigger a")
    case False
    with a(4) have "a = T" by simp
    with a(1,2,3,5) False nostop show ?thesis
      by (intro exI [of _ a]) (simp add: record_loop.simps)
  next
    case True
    let ?s4 = "take_sample e filename frame_id (sleep_until a s)"
    have fs4: "first_stop stop_trigger (clock ?s4) T"
      using first_stop_later [OF fs a(1,2)] by simp
    have fuel4: "T - clock ?s4 \<le> Suc m" using fuel a(1) by simp
    from wait_for_release_result [OF fs4 fuel4, of add_trigger filename] obtain b where b:
      "a \<le> b" "b \<le> T" "\<forall>t\<in>{a..<b}. add_trigger t" "add_trigger b \<longrightarrow> b = T"
      "wait_for_release (Suc m) filename add_trigger stop_trigger ?s4 =
         (if add_trigger b then (Returned, loginfo (RouteIsCreated filename) (sleep_until b ?s4))
          else (Finished, sleep_until b ?s4))"
      by auto
    have body: "record_loop (Suc m) e filename add_trigger stop_trigger frame_id s =
        (case wait_for_release (Suc m) filename add_trigger stop_trigger ?s4 of
           (Finished, s5) \<Rightarrow> record_loop m e filename add_trigger stop_trigger frame_id s5
         | r \<Rightarrow> r)"
      using nostop a(5) True
      by (simp add: record_loop.simps take_sample_def Let_def get_telemetry_def)
    show ?thesis
    proof (cases "add_trigger b")
      case held: True
      with b(4) have "b = T" by simp
      with held b(1,2,3,5) True a(1,2,3) body show ?thesis
        by (intro exI [of _ a]) (simp, intro exI [of _ b], simp)
    next
      case released: False
      with True b(1) have "a < b" by (cases "a = b") auto
      with released b(1,2,3,5) True a(1,2,3) body show ?thesis
        by (intro exI [of _ a]) (simp, intro exI [of _ b], simp)
    qed
  qed
qed

lemma record_loop_rule:
  assumes fs: "first_stop stop_trigger (clock s) T" and fuel: "T - clock s \<le> n"
    and at_stop: "\<And>s. clock s = T \<Longrightarrow> P s (Finished, s)"
    and in_wait: "\<And>s. clock s < T \<Longrightarrow> \<forall>t\<in>{clock s..<Suc T}. \<not> add_trigger t \<Longrightarrow>
        P s (Returned, loginfo (RouteIsCreated filename) (sleep_until T s))"
    and in_release: "\<And>s a. clock s < T \<Longrightarrow> clock s \<le> a \<Longrightarrow> a \<le> T \<Longrightarrow>
        \<forall>t\<in>{clock s..<a}. \<not> add_trigger t \<Longrightarrow> \<forall>t\<in>{a..<Suc T}. add_trigger t \<Longrightarrow>
        P s (Returned, loginfo (RouteIsCreated filename)
               (sleep_until T (take_sample e filename frame_id (sleep_until a s))))"
    and iterate: "\<And>s a b r. clock s < T \<Longrightarrow> clock s \<le> a \<Longrightarrow> a < b \<Longrightarrow> b \<le> T \<Longrightarrow>
        \<forall>t\<in>{clock s..<a}. \<not> add_trigger t \<Longrightarrow> \<forall>t\<in>{a..<b}. add_trigger t \<Longrightarrow>
        \<not> add_trigger b \<Longrightarrow>
        P (sleep_until b (take_sample e filename frame_id (sleep_until a s))) r \<Longrightarrow> P s r"
  shows "P s (record_loop n e filename add_trigger stop_trigger frame_id s)"
  using fs fuel
proof (induction n arbitrary: s)
  case 0
  then have T: "clock s = T" by (simp add: first_stop_def)
  then have "stop_trigger (clock s)" using 0 by (simp add: first_stop_def)
  then show ?case
    using at_stop [OF T] by (simp add: record_loop_at_stop)
next
  case (Suc m)
  show ?case
  proof (cases "clock s < T")
    case False
    with Suc.prems(1) have T: "clock s = T" by (simp add: first_stop_def)
    then have "stop_trigger (clock s)" using Suc.prems(1) by (simp add: first_stop_def)
    then show ?thesis
      using at_stop [OF T] by (simp add: record_loop_at_stop)
  next
    case True
    from record_loop_step [OF Suc.prems(1) True Suc.prems(2), of add_trigger e filename frame_id]
    obtain a where a: "clock s \<le> a" "a \<le> T" "\<forall>t\<in>{clock s..<a}. \<not> add_trigger t"
      and step: "if \<not> add_trigger a
     then a = T \<and> record_loop (Suc m) e filename add_trigger stop_trigger frame_id s =
            (Returned, loginfo (RouteIsCreated filename) (sleep_until T s))
     else \<exists>b. a \<le> b \<and> b \<le> T \<and> (\<forall>t\<in>{a..<b}. add_trigger t) \<and>
       (if add_trigger b
        then b = T \<and> record_loop (Suc m) e filename add_trigger stop_trigger frame_id s =
               (Returned, loginfo (RouteIsCreated filename)
                  (sleep_until T (take_sample e filename frame_id (sleep_until a s))))
        else a < b \<and> record_loop (Suc m) e filename add_trigger stop_trigger frame_id s =
               record_loop m e filename add_trigger stop_trigger frame_id
                 (sleep_until b (take_sample e filename frame_id (sleep_until a s))))"
      by blast
    show ?thesis
    proof (cases "add_trigger a")
      case False
      with step have aT: "a = T"
        and eq: "record_loop (Suc m) e filename add_trigger stop_trigger frame_id s =
            (Returned, loginfo (RouteIsCreated filename) (sleep_until T s))"
        by simp_all
      have "\<forall>t\<in>{clock s..<Suc T}. \<not> add_trigger t"
      proof
        fix t assume "t \<in> {clock s..<Suc T}"
        then show "\<not> add_trigger t"
          using a(3) False aT by (cases "t = T") auto
      qed
      from in_wait [OF True this] show ?thesis unfolding eq .
    next
      case True_a: True
      with step obtain b where b: "a \<le> b" "b \<le> T" "\<forall>t\<in>{a..<b}. add_trigger t"
        and step2: "if add_trigger b
        then b = T \<and> record_loop (Suc m) e filename add_trigger stop_trigger frame_id s =
               (Returned, loginfo (RouteIsCreated filename)
                  (sleep_until T (take_sample e filename frame_id (sleep_until a s))))
        else a < b \<and> record_loop (Suc m) e filename add_trigger stop_trigger frame_id s =
               record_loop m e filename add_trigger stop_trigger frame_id
                 (sleep_until b (take_sample e filename frame_id (sleep_until a s)))"
        by auto
      show ?thesis
      proof (cases "add_trigger b")
        case True_b: True
        with step2 have bT: "b = T"
          and eq: "record_loop (Suc m) e filename add_trigger stop_trigger frame_id s =
               (Returned, loginfo (RouteIsCreated filename)
                  (sleep_until T (take_sample e filename frame_id (sleep_until a s))))"
          by simp_all
        have "\<forall>t\<in>{a..<Suc T}. add_trigger t"
        proof
          fix t assume "t \<in> {a..<Suc T}"
          then show "add_trigger t"
            using b(3) True_b bT by (cases "t = T") auto
        qed
        from in_release [OF True a this] show ?thesis unfolding eq .
      next
        case False
        let ?s' = "sleep_until b (take_sample e filename frame_id (sleep_until a s))"
        from False step2 have ab: "a < b"
          and eq: "record_loop (Suc m) e filename add_trigger stop_trigger frame_id s =
               record_loop m e filename add_trigger stop_trigger frame_id ?s'"
          by simp_all
        have fs': "first_stop stop_trigger (clock ?s') T"
          using first_stop_later [OF Suc.prems(1), of b] a b by simp
        have fuel': "T - clock ?s' \<le> m" using Suc.prems(2) a ab by simp
        from iterate [OF True a(1) ab b(2) a(3) b(3) False Suc.IH [OF fs' fuel']]
        show ?thesis unfolding eq .
      qed
    qed
  qed
qed

lemma record_loop_returns_at_stop:
  assumes "first_stop stop_trigger (clock s) T" and "T - clock s \<le> n"
  shows "(fst (record_loop n e filename add_trigger stop_trigger frame_id s) = Finished
          \<or> fst (record_loop n e filename add_trigger stop_trigger frame_id s) = Returned)
     \<and> clock (snd (record_loop n e filename add_trigger stop_trigger frame_id s)) = T"
  by (rule record_loop_rule [OF assms, where P = "\<lambda>s r. (fst r = Finished \<or> fst r = Returned)
       \<and> clock (snd r) = T"]) simp_all

text \<open>
  Claim C6. Let \<open>T\<close> be the first poll tick at which the stop trigger is set. Whatever
  the add trigger does (unset, so that the recorder waits for it; or held after a capture,
  so that the recorder waits for its release), \<^verbatim>\<open>create_route\<close> returns at tick \<open>T\<close>:
  it has slept exactly up to the tick at which the stop trigger became visible and not
  once more.
\<close>

theorem create_route_returns_at_first_stop_tick:
  assumes can_open: "\<not> open_for_writing_fails e filename"
      and fs: "first_stop stop_trigger (clock s) T"
      and fuel: "T - clock s \<le> n"
  shows "fst (create_route n e filename add_trigger stop_trigger frame_id s) = Returned
     \<and> clock (snd (create_route n e filename add_trigger stop_trigger frame_id s)) = T"
proof -
  let ?s2 = "loginfo (OpenFileForWriting filename) (s\<lparr>files := (files s)(filename \<mapsto> [])\<rparr>)"
  obtain r s3 where loop: "record_loop n e filename add_trigger stop_trigger frame_id ?s2 = (r, s3)"
    by (cases "record_loop n e filename add_trigger stop_trigger frame_id ?s2")
  have "first_stop stop_trigger (clock ?s2) T" "T - clock ?s2 \<le> n"
    using fs fuel by simp_all
  from record_loop_returns_at_stop [OF this, of e filename add_trigger frame_id] loop
  have r: "r = Finished \<or> r = Returned" and c: "clock s3 = T" by simp_all
  have "create_route n e filename add_trigger stop_trigger frame_id s =
      (case r of Finished \<Rightarrow> (Returned, loginfo (RouteIsCreated filename) s3) | _ \<Rightarrow> (r, s3))"
    using can_open loop
    by (simp add: create_route_def open_for_writing_def Let_def split: outcome.splits)
  with r c show ?thesis by auto
qed

text \<open>
  Two schedules with the stop trigger set from tick \<open>3\<close>: the add trigger never set, and
  the add trigger held from tick \<open>1\<close> on.
\<close>

theorem create_route_returns_at_first_stop_tick_witness:
  "fst (create_route 3 (poses_env (\<lambda>i. (0, 0, 0))) ''route.csv'' (\<lambda>t. False) (\<lambda>t. 3 \<le> t)
          LOCAL_FRAME_ID world0) = Returned
   \<and> clock (snd (create_route 3 (poses_env (\<lambda>i. (0, 0, 0))) ''route.csv'' (\<lambda>t. False) (\<lambda>t. 3 \<le> t)
          LOCAL_FRAME_ID world0)) = 3
   \<and> fst (create_route 3 (poses_env (\<lambda>i. (0, 0, 0))) ''route.csv'' (\<lambda>t. 1 \<le> t) (\<lambda>t. 3 \<le> t)
          LOCAL_FRAME_ID world0) = Returned
   \<and> clock (snd (create_route 3 (poses_env (\<lambda>i. (0, 0, 0))) ''route.csv'' (\<lambda>t. 1 \<le> t) (\<lambda>t. 3 \<le> t)
          LOCAL_FRAME_ID world0)) = 3"
  using create_route_returns_at_first_stop_tick [of "poses_env (\<lambda>i. (0, 0, 0))" "''route.csv''"
          "\<lambda>t. 3 \<le> t" world0 3 3 "\<lambda>t. False" LOCAL_FRAME_ID]
        create_route_returns_at_first_stop_tick [of "poses_env (\<lambda>i. (0, 0, 0))" "''route.csv''"
          "\<lambda>t. 3 \<le> t" world0 3 3 "\<lambda>t. 1 \<le> t" LOCAL_FRAME_ID]
  by (simp add: poses_env_def first_stop_def world0_def)

section \<open>Route recording: one sample per rising edge\<close>

lemma rises_quiet: "\<forall>x\<in>set xs. \<not> x \<Longrightarrow> rises False (xs @ ys) = rises False ys"
  by (induction xs) auto

lemma rises_held: "\<forall>x\<in>set xs. x \<Longrightarrow> rises True (xs @ ys) = rises True ys"
  by (induction xs) auto

lemma upt_split: "c \<le> a \<Longrightarrow> a \<le> b \<Longrightarrow> [c..<b] = [c..<a] @ [a..<b]"
  by (metis le_Suc_ex upt_add_eq_append)

lemma edges_skip_quiet:
  assumes "c \<le> a" "a \<le> Suc T" "\<forall>t\<in>{c..<a}. \<not> add_trigger t"
  shows "rises False (map add_trigger [c..<Suc T]) = rises False (map add_trigger [a..<Suc T])"
proof -
  have "\<forall>x\<in>set (map add_trigger [c..<a]). \<not> x" using assms(3) by auto
  then show ?thesis
    using upt_split [OF assms(1,2)] by (simp add: rises_quiet del: upt_Suc)
qed

lemma edges_skip_held:
  assumes "c \<le> b" "b \<le> Suc T" "\<forall>t\<in>{c..<b}. add_trigger t"
  shows "rises True (map add_trigger [c..<Suc T]) = rises True (map add_trigger [b..<Suc T])"
proof -
  have "\<forall>x\<in>set (map add_trigger [c..<b]). x" using assms(3) by auto
  then show ?thesis
    using upt_split [OF assms(1,2)] by (simp add: rises_held del: upt_Suc)
qed

lemma edges_head:
  "a \<le> T \<Longrightarrow> rises p (map add_trigger [a..<Suc T]) =
     (if add_trigger a \<and> \<not> p then 1 else 0) + rises (add_trigger a) (map add_trigger [Suc a..<Suc T])"
  by (simp add: upt_conv_Cons del: upt_Suc)

lemma edges_none:
  assumes "c \<le> Suc T" "\<forall>t\<in>{c..<Suc T}. \<not> add_trigger t"
  shows "rising_edges add_trigger c T = 0"
  using edges_skip_quiet [OF assms(1) le_refl assms(2)] by (simp add: rising_edges_def del: upt_Suc)

lemma edges_one_held_to_end:
  assumes "c \<le> a" "a \<le> T" "\<forall>t\<in>{c..<a}. \<not> add_trigger t" "\<forall>t\<in>{a..<Suc T}. add_trigger t"
  shows "rising_edges add_trigger c T = 1"
proof -
  have a: "add_trigger a" using assms(2,4) by simp
  have "\<forall>t\<in>{Suc a..<Suc T}. add_trigger t" using assms(4) by simp
  from edges_skip_held [OF _ le_refl this] assms(2)
  have "rises True (map add_trigger [Suc a..<Suc T]) = 0" by (simp del: upt_Suc)
  with edges_skip_quiet [OF assms(1) _ assms(3), of T] assms(2) a show ?thesis
    by (simp add: rising_edges_def edges_head del: upt_Suc)
qed

lemma edges_one_then_rest:
  assumes "c \<le> a" "a < b" "b \<le> T" "\<forall>t\<in>{c..<a}. \<not> add_trigger t"
    "\<forall>t\<in>{a..<b}. add_trigger t" "\<not> add_trigger b"
  shows "rising_edges add_trigger c T = Suc (rising_edges add_trigger b T)"
proof -
  have a: "add_trigger a" using assms(2,5) by simp
  have aT: "a \<le> T" using assms(2,3) by simp
  have held: "\<forall>t\<in>{Suc a..<b}. add_trigger t" using assms(5) by simp
  have 1: "rises False (map add_trigger [c..<Suc T]) = rises False (map add_trigger [a..<Suc T])"
    using edges_skip_quiet [OF assms(1) _ assms(4), of T] aT by (simp del: upt_Suc)
  have 2: "rises False (map add_trigger [a..<Suc T]) = Suc (rises True (map add_trigger [Suc a..<Suc T]))"
    using a by (simp add: edges_head [OF aT] del: upt_Suc)
  have 3: "rises True (map add_trigger [Suc a..<Suc T]) = rises True (map add_trigger [b..<Suc T])"
    using edges_skip_held [OF _ _ held, of T] assms(2,3) by (simp del: upt_Suc)
  have 4: "rises True (map add_trigger [b..<Suc T]) = rises False (map add_trigger [Suc b..<Suc T])"
    using assms(6) by (simp add: edges_head [OF assms(3)] del: upt_Suc)
  have 5: "rises False (map add_trigger [b..<Suc T]) = rises False (map add_trigger [Suc b..<Suc T])"
    using assms(6) by (simp add: edges_head [OF assms(3)] del: upt_Suc)
  show ?thesis
    unfolding rising_edges_def 1 2 3 4 5 ..
qed

lemma record_loop_reads:
  assumes "first_stop stop_trigger (clock s) T" and "T - clock s \<le> n"
      and "clock s < T \<or> \<not> add_trigger (clock s)"
  shows "reads (snd (record_loop n e filename add_trigger stop_trigger frame_id s)) =
     reads s + rising_edges add_trigger (clock s) T"
proof -
  have "(clock s < T \<or> \<not> add_trigger (clock s)) \<longrightarrow>
     reads (snd (record_loop n e filename add_trigger stop_trigger frame_id s)) =
     reads s + rising_edges add_trigger (clock s) T"
  proof (rule record_loop_rule [OF assms(1,2), where P = "\<lambda>s r. (clock s < T \<or> \<not> add_trigger (clock s)) \<longrightarrow>
     reads (snd r) = reads s + rising_edges add_trigger (clock s) T"])
    fix s :: world assume "clock s = T"
    then show "(clock s < T \<or> \<not> add_trigger (clock s)) \<longrightarrow>
        reads (snd (Finished, s)) = reads s + rising_edges add_trigger (clock s) T"
      by (auto simp add: rising_edges_def)
  next
    fix s :: world assume "clock s < T" "\<forall>t\<in>{clock s..<Suc T}. \<not> add_trigger t"
    then show "(clock s < T \<or> \<not> add_trigger (clock s)) \<longrightarrow>
        reads (snd (Returned, loginfo (RouteIsCreated filename) (sleep_until T s))) =
        reads s + rising_edges add_trigger (clock s) T"
      using edges_none [of "clock s" T add_trigger] by simp
  next
    fix s :: world and a
    assume "clock s < T" "clock s \<le> a" "a \<le> T" "\<forall>t\<in>{clock s..<a}. \<not> add_trigger t"
      "\<forall>t\<in>{a..<Suc T}. add_trigger t"
    then show "(clock s < T \<or> \<not> add_trigger (clock s)) \<longrightarrow>
        reads (snd (Returned, loginfo (RouteIsCreated filename)
          (sleep_until T (take_sample e filename frame_id (sleep_until a s))))) =
        reads s + rising_edges add_trigger (clock s) T"
      using edges_one_held_to_end [of "clock s" a T add_trigger] by simp
  next
    fix s :: world and a b r
    assume h: "clock s < T" "clock s \<le> a" "a < b" "b \<le> T" "\<forall>t\<in>{clock s..<a}. \<not> add_trigger t"
      "\<forall>t\<in>{a..<b}. add_trigger t" "\<not> add_trigger b"
      and ih: "(clock (sleep_until b (take_sample e filename frame_id (sleep_until a s))) < T
          \<or> \<not> add_trigger (clock (sleep_until b (take_sample e filename frame_id (sleep_until a s))))) \<longrightarrow>
        reads (snd r) = reads (sleep_until b (take_sample e filename frame_id (sleep_until a s))) +
          rising_edges add_trigger (clock (sleep_until b (take_sample e filename frame_id (sleep_until a s)))) T"
    from ih h(7) have "reads (snd r) = Suc (reads s) + rising_edges add_trigger b T" by simp
    then show "(clock s < T \<or> \<not> add_trigger (clock s)) \<longrightarrow>
        reads (snd r) = reads s + rising_edges add_trigger (clock s) T"
      using edges_one_then_rest [OF h(2,3,4,5,6,7)] by simp
  qed
  with assms(3) show ?thesis by simp
qed

lemma recorded_rows_empty [simp]: "recorded_rows e frame_id i i = []"
  by (simp add: recorded_rows_def)

lemma recorded_rows_first:
  "i < j \<Longrightarrow> recorded_rows e frame_id i j =
     telem_row e (telemetry e frame_id i) @ recorded_rows e frame_id (Suc i) j"
  by (simp add: recorded_rows_def upt_conv_Cons)

lemma take_sample_file:
  "files s filename = Some content \<Longrightarrow>
   files (take_sample e filename frame_id s) filename =
     Some (content @ telem_row e (telemetry e frame_id (reads s)))"
  by (simp add: take_sample_def Let_def file_write_def get_telemetry_def loginfo_def emit_def)

lemma record_loop_file:
  assumes "first_stop stop_trigger (clock s) T" and "T - clock s \<le> n"
      and "files s filename = Some content"
  shows "reads s \<le> reads (snd (record_loop n e filename add_trigger stop_trigger frame_id s))
     \<and> files (snd (record_loop n e filename add_trigger stop_trigger frame_id s)) filename =
         Some (content @ recorded_rows e frame_id (reads s)
           (reads (snd (record_loop n e filename add_trigger stop_trigger frame_id s))))"
proof -
  have "\<forall>content. files s filename = Some content \<longrightarrow>
     reads s \<le> reads (snd (record_loop n e filename add_trigger stop_trigger frame_id s))
     \<and> files (snd (record_loop n e filename add_trigger stop_trigger frame_id s)) filename =
         Some (content @ recorded_rows e frame_id (reads s)
           (reads (snd (record_loop n e filename add_trigger stop_trigger frame_id s))))"
  proof (rule record_loop_rule [OF assms(1,2), where P = "\<lambda>s r. \<forall>content.
       files s filename = Some content \<longrightarrow> reads s \<le> reads (snd r)
       \<and> files (snd r) filename = Some (content @ recorded_rows e frame_id (reads s) (reads (snd r)))"])
    fix s :: world assume "clock s = T"
    show "\<forall>content. files s filename = Some content \<longrightarrow> reads s \<le> reads (snd (Finished, s))
       \<and> files (snd (Finished, s)) filename =
           Some (content @ recorded_rows e frame_id (reads s) (reads (snd (Finished, s))))"
      by simp
  next
    fix s :: world assume "clock s < T" "\<forall>t\<in>{clock s..<Suc T}. \<not> add_trigger t"
    show "\<forall>content. files s filename = Some content \<longrightarrow>
        reads s \<le> reads (snd (Returned, loginfo (RouteIsCreated filename) (sleep_until T s)))
       \<and> files (snd (Returned, loginfo (RouteIsCreated filename) (sleep_until T s))) filename =
           Some (content @ recorded_rows e frame_id (reads s)
             (reads (snd (Returned, loginfo (RouteIsCreated filename) (sleep_until T s)))))"
      by simp
  next
    fix s :: world and a
    assume "clock s < T" "clock s \<le> a" "a \<le> T" "\<forall>t\<in>{clock s..<a}. \<not> add_trigger t"
      "\<forall>t\<in>{a..<Suc T}. add_trigger t"
    let ?r = "(Returned, loginfo (RouteIsCreated filename)
          (sleep_until T (take_sample e filename frame_id (sleep_until a s))))"
    show "\<forall>content. files s filename = Some content \<longrightarrow> reads s \<le> reads (snd ?r)
       \<and> files (snd ?r) filename = Some (content @ recorded_rows e frame_id (reads s) (reads (snd ?r)))"
    proof (intro allI impI)
      fix content assume "files s filename = Some content"
      then have "files (sleep_until a s) filename = Some content" by simp
      from take_sample_file [OF this, of e frame_id]
      show "reads s \<le> reads (snd ?r)
       \<and> files (snd ?r) filename = Some (content @ recorded_rows e frame_id (reads s) (reads (snd ?r)))"
        by (simp add: recorded_rows_first)
    qed
  next
    fix s :: world and a b r
    let ?s' = "sleep_until b (take_sample e filename frame_id (sleep_until a s))"
    assume ih: "\<forall>content. files ?s' filename = Some content \<longrightarrow> reads ?s' \<le> reads (snd r)
       \<and> files (snd r) filename = Some (content @ recorded_rows e frame_id (reads ?s') (reads (snd r)))"
    show "\<forall>content. files s filename = Some content \<longrightarrow> reads s \<le> reads (snd r)
       \<and> files (snd r) filename = Some (content @ recorded_rows e frame_id (reads s) (reads (snd r)))"
    proof (intro allI impI)
      fix content assume "files s filename = Some content"
      then have "files (sleep_until a s) filename = Some content" by simp
      from take_sample_file [OF this, of e frame_id]
      have f: "files ?s' filename = Some (content @ telem_row e (telemetry e frame_id (reads s)))"
        by simp
      from ih f have le: "Suc (reads s) \<le> reads (snd r)"
        and c: "files (snd r) filename = Some ((content @ telem_row e (telemetry e frame_id (reads s)))
             @ recorded_rows e frame_id (Suc (reads s)) (reads (snd r)))"
        by simp_all
      from le have "reads s < reads (snd r)" by simp
      from recorded_rows_first [OF this, of e frame_id] c le
      show "reads s \<le> reads (snd r)
       \<and> files (snd r) filename = Some (content @ recorded_rows e frame_id (reads s) (reads (snd r)))"
        by simp
    qed
  qed
  with assms(3) show ?thesis by simp
qed

lemma create_route_unfold:
  assumes "\<not> open_for_writing_fails e filename"
      and "record_loop n e filename add_trigger stop_trigger frame_id
            (loginfo (OpenFileForWriting filename) (s\<lparr>files := (files s)(filename \<mapsto> [])\<rparr>)) = (r, s3)"
      and "r = Finished \<or> r = Returned"
  shows "fst (create_route n e filename add_trigger stop_trigger frame_id s) = Returned"
    "reads (snd (create_route n e filename add_trigger stop_trigger frame_id s)) = reads s3"
    "clock (snd (create_route n e filename add_trigger stop_trigger frame_id s)) = clock s3"
    "files (snd (create_route n e filename add_trigger stop_trigger frame_id s)) = files s3"
  using assms
  by (auto simp add: create_route_def open_for_writing_def Let_def)

text \<open>
  Claim C5. For every schedule of the add trigger, when recording starts before the stop
  trigger is set and \<open>T\<close> is the first tick at which it is set, \<^verbatim>\<open>create_route\<close> returns
  having taken exactly one sample per rising edge of the add trigger in the ticks up to
  \<open>T\<close> (a trigger already set when recording starts counts as an edge), and the file holds
  exactly these rows in order. A trigger held over many ticks is one edge, so one row; a
  further row needs a tick at which the trigger is seen cleared.
\<close>

theorem create_route_one_sample_per_rising_edge:
  assumes can_open: "\<not> open_for_writing_fails e filename"
      and fs: "first_stop stop_trigger (clock s) T"
      and running: "clock s < T"
      and fuel: "T - clock s \<le> n"
  shows "fst (create_route n e filename add_trigger stop_trigger frame_id s) = Returned
     \<and> reads (snd (create_route n e filename add_trigger stop_trigger frame_id s)) =
         reads s + rising_edges add_trigger (clock s) T
     \<and> files (snd (create_route n e filename add_trigger stop_trigger frame_id s)) filename =
         Some (recorded_rows e frame_id (reads s) (reads s + rising_edges add_trigger (clock s) T))"
proof -
  let ?s2 = "loginfo (OpenFileForWriting filename) (s\<lparr>files := (files s)(filename \<mapsto> [])\<rparr>)"
  obtain r s3 where loop: "record_loop n e filename add_trigger stop_trigger frame_id ?s2 = (r, s3)"
    by (cases "record_loop n e filename add_trigger stop_trigger frame_id ?s2")
  have fs2: "first_stop stop_trigger (clock ?s2) T" and fuel2: "T - clock ?s2 \<le> n"
    and run2: "clock ?s2 < T \<or> \<not> add_trigger (clock ?s2)"
    and file2: "files ?s2 filename = Some []"
    using fs fuel running by simp_all
  from record_loop_returns_at_stop [OF fs2 fuel2, of e filename add_trigger frame_id] loop
  have r: "r = Finished \<or> r = Returned" by simp
  from record_loop_reads [where add_trigger = add_trigger and s = ?s2 and e = e
      and filename = filename and frame_id = frame_id, OF fs2 fuel2 run2] loop
  have n: "reads s3 = reads s + rising_edges add_trigger (clock s) T" by simp
  from record_loop_file [OF fs2 fuel2 file2, of e add_trigger frame_id] loop
  have f: "files s3 filename = Some (recorded_rows e frame_id (reads s) (reads s3))" by simp
  from create_route_unfold [OF can_open loop r] n f show ?thesis by simp
qed

text \<open>
  The add trigger is set at tick \<open>2\<close> and held to tick \<open>6\<close>; the stop trigger is set at
  tick \<open>9\<close>. One sample is taken although the trigger is seen set at five ticks.
\<close>

theorem create_route_one_sample_per_rising_edge_witness:
  "fst (create_route 9 (poses_env (\<lambda>i. (1, 2, 3))) ''route.csv'' (\<lambda>t. 2 \<le> t \<and> t \<le> 6) (\<lambda>t. 9 \<le> t)
          LOCAL_FRAME_ID world0) = Returned
   \<and> reads (snd (create_route 9 (poses_env (\<lambda>i. (1, 2, 3))) ''route.csv'' (\<lambda>t. 2 \<le> t \<and> t \<le> 6)
          (\<lambda>t. 9 \<le> t) LOCAL_FRAME_ID world0)) = 1
   \<and> rising_edges (\<lambda>t. 2 \<le> t \<and> t \<le> 6) 0 9 = 1"
proof -
  have e: "rising_edges (\<lambda>t. 2 \<le> t \<and> t \<le> 6) 0 9 = 1"
    by code_simp
  from create_route_one_sample_per_rising_edge [of "poses_env (\<lambda>i. (1, 2, 3))" "''route.csv''"
      "\<lambda>t. 9 \<le> t" world0 9 9 "\<lambda>t. 2 \<le> t \<and> t \<le> 6" LOCAL_FRAME_ID] e
  show ?thesis
    by (simp add: poses_env_def first_stop_def world0_def)
qed

lemma sleep_until_same: "clock s = a \<Longrightarrow> sleep_until a s = s"
  by (simp add: sleep_until_def)

lemma last_trace_sleep_until: "clock s < a \<Longrightarrow> last (trace (sleep_until a s)) = RateSleep"
  by (simp add: sleep_until_def)

lemma take_sample_trace:
  "trace (take_sample e filename frame_id s) =
     trace s @ [GetTelemetry frame_id,
       Loginfo (AddPoint (tel_x (telemetry e frame_id (reads s))) (tel_y (telemetry e frame_id (reads s)))
         (tel_z (telemetry e frame_id (reads s))) filename)]"
  by (simp add: take_sample_def Let_def get_telemetry_def)

lemma record_loop_sample_at_stop:
  assumes fs: "first_stop stop_trigger (clock s) T" and fuel: "T - clock s \<le> n"
      and running: "clock s < T"
      and idle: "\<not> add_trigger (T - 1)" and both: "add_trigger T"
  shows "\<exists>s1. clock s1 = T \<and> last (trace s1) = RateSleep \<and> reads s \<le> reads s1
     \<and> (\<forall>c. files s filename = Some c \<longrightarrow>
           files s1 filename = Some (c @ recorded_rows e frame_id (reads s) (reads s1)))
     \<and> record_loop n e filename add_trigger stop_trigger frame_id s =
         (Returned, loginfo (RouteIsCreated filename) (take_sample e filename frame_id s1))"
proof -
  let ?Q = "\<lambda>s r. clock s < T \<longrightarrow>
     (\<exists>s1. clock s1 = T \<and> last (trace s1) = RateSleep \<and> reads s \<le> reads s1
        \<and> (\<forall>c. files s filename = Some c \<longrightarrow>
              files s1 filename = Some (c @ recorded_rows e frame_id (reads s) (reads s1)))
        \<and> r = (Returned, loginfo (RouteIsCreated filename) (take_sample e filename frame_id s1)))"
  have "?Q s (record_loop n e filename add_trigger stop_trigger frame_id s)"
  proof (rule record_loop_rule [OF fs fuel, where P = ?Q])
    fix s :: world assume "clock s = T"
    then show "?Q s (Finished, s)" by simp
  next
    fix s :: world assume "clock s < T" "\<forall>t\<in>{clock s..<Suc T}. \<not> add_trigger t"
    then have "\<not> add_trigger T" by simp
    with both show "?Q s (Returned, loginfo (RouteIsCreated filename) (sleep_until T s))"
      by simp
  next
    fix s :: world and a
    assume h: "clock s < T" "clock s \<le> a" "a \<le> T" "\<forall>t\<in>{a..<Suc T}. add_trigger t"
    have "a = T"
    proof (rule ccontr)
      assume "a \<noteq> T"
      with h(3) have "T - 1 \<in> {a..<Suc T}" by auto
      with h(4) idle show False by blast
    qed
    then have eq: "sleep_until T (take_sample e filename frame_id (sleep_until a s)) =
        take_sample e filename frame_id (sleep_until T s)"
      by (simp add: sleep_until_same)
    have "clock (sleep_until T s) = T \<and> last (trace (sleep_until T s)) = RateSleep
       \<and> reads s \<le> reads (sleep_until T s)
       \<and> (\<forall>c. files s filename = Some c \<longrightarrow> files (sleep_until T s) filename =
             Some (c @ recorded_rows e frame_id (reads s) (reads (sleep_until T s))))
       \<and> (Returned, loginfo (RouteIsCreated filename)
               (sleep_until T (take_sample e filename frame_id (sleep_until a s)))) =
            (Returned, loginfo (RouteIsCreated filename)
               (take_sample e filename frame_id (sleep_until T s)))"
      using h(1) eq by (simp add: last_trace_sleep_until)
    then show "?Q s (Returned, loginfo (RouteIsCreated filename)
               (sleep_until T (take_sample e filename frame_id (sleep_until a s))))"
      by blast
  next
    fix s :: world and a b r
    let ?s' = "sleep_until b (take_sample e filename frame_id (sleep_until a s))"
    assume h: "b \<le> T" "\<not> add_trigger b" and ih: "?Q ?s' r"
    from h both have "b < T" by (cases "b = T") auto
    with ih obtain s1 where s1: "clock s1 = T" "last (trace s1) = RateSleep"
        "reads ?s' \<le> reads s1"
        "\<forall>c. files ?s' filename = Some c \<longrightarrow>
           files s1 filename = Some (c @ recorded_rows e frame_id (reads ?s') (reads s1))"
        "r = (Returned, loginfo (RouteIsCreated filename) (take_sample e filename frame_id s1))"
      by auto
    have rd: "reads ?s' = Suc (reads s)" by simp
    have lt: "reads s < reads s1" using s1(3) rd by simp
    have fl: "\<forall>c. files s filename = Some c \<longrightarrow>
        files s1 filename = Some (c @ recorded_rows e frame_id (reads s) (reads s1))"
    proof (intro allI impI)
      fix c assume c: "files s filename = Some c"
      then have "files (sleep_until a s) filename = Some c" by simp
      from take_sample_file [OF this, of e frame_id]
      have "files ?s' filename = Some (c @ telem_row e (telemetry e frame_id (reads s)))" by simp
      with s1(4) have "files s1 filename =
          Some ((c @ telem_row e (telemetry e frame_id (reads s)))
                 @ recorded_rows e frame_id (reads ?s') (reads s1))"
        by blast
      then show "files s1 filename = Some (c @ recorded_rows e frame_id (reads s) (reads s1))"
        by (simp add: recorded_rows_first [OF lt])
    qed
    have "clock s1 = T \<and> last (trace s1) = RateSleep \<and> reads s \<le> reads s1
        \<and> (\<forall>c. files s filename = Some c \<longrightarrow>
              files s1 filename = Some (c @ recorded_rows e frame_id (reads s) (reads s1)))
        \<and> r = (Returned, loginfo (RouteIsCreated filename) (take_sample e filename frame_id s1))"
      using s1(1,2,5) lt fl by simp
    then show "?Q s r" by blast
  qed
  with running show ?thesis by simp
qed

text \<open>
  Claim C10. Let \<open>T\<close> be the first tick at which the stop trigger is set, with the add
  trigger clear at tick \<open>T - 1\<close>, so that the recorder is sleeping in its wait-for-start
  loop, and set at tick \<open>T\<close>. The loop tests the add trigger first: \<^verbatim>\<open>create_route\<close>
  wakes up in a world \<open>s1\<close> at tick \<open>T\<close> where both triggers are set and the file holds
  the rows of the samples taken so far, takes one more sample there, writes it, and
  only then sees the stop trigger and returns. In the world it leaves, the file is the
  file of \<open>s1\<close> with the row of that sample appended, the telemetry has been read once
  more than in \<open>s1\<close>, and the events after \<open>s1\<close> are the telemetry read, the log of the
  added point and the log of the end of the recording.
\<close>

theorem create_route_samples_when_stop_already_set:
  assumes can_open: "\<not> open_for_writing_fails e filename"
      and fs: "first_stop stop_trigger (clock s) T"
      and running: "clock s < T"
      and idle: "\<not> add_trigger (T - 1)"
      and both: "add_trigger T"
      and fuel: "T - clock s \<le> n"
  shows "\<exists>s1. clock s1 = T \<and> is_set stop_trigger s1 \<and> is_set add_trigger s1
     \<and> last (trace s1) = RateSleep
     \<and> reads s \<le> reads s1
     \<and> files s1 filename = Some (recorded_rows e frame_id (reads s) (reads s1))
     \<and> create_route n e filename add_trigger stop_trigger frame_id s =
         (Returned, loginfo (RouteIsCreated filename) (take_sample e filename frame_id s1))
     \<and> files (snd (create_route n e filename add_trigger stop_trigger frame_id s)) filename =
         Some (recorded_rows e frame_id (reads s) (reads s1)
               @ telem_row e (telemetry e frame_id (reads s1)))
     \<and> reads (snd (create_route n e filename add_trigger stop_trigger frame_id s)) = Suc (reads s1)
     \<and> trace (snd (create_route n e filename add_trigger stop_trigger frame_id s)) =
         trace s1 @ [GetTelemetry frame_id,
           Loginfo (AddPoint (tel_x (telemetry e frame_id (reads s1)))
             (tel_y (telemetry e frame_id (reads s1))) (tel_z (telemetry e frame_id (reads s1)))
             filename),
           Loginfo (RouteIsCreated filename)]"
proof -
  let ?s2 = "loginfo (OpenFileForWriting filename) (s\<lparr>files := (files s)(filename \<mapsto> [])\<rparr>)"
  let ?run = "create_route n e filename add_trigger stop_trigger frame_id s"
  have fs2: "first_stop stop_trigger (clock ?s2) T" and fuel2: "T - clock ?s2 \<le> n"
    and run2: "clock ?s2 < T" and file2: "files ?s2 filename = Some []"
    and reads2: "reads ?s2 = reads s"
    using fs fuel running by simp_all
  from record_loop_sample_at_stop [OF fs2 fuel2 run2 idle both, of filename e frame_id]
  obtain s1 where s1: "clock s1 = T" "last (trace s1) = RateSleep" "reads ?s2 \<le> reads s1"
    "\<forall>c. files ?s2 filename = Some c \<longrightarrow>
       files s1 filename = Some (c @ recorded_rows e frame_id (reads ?s2) (reads s1))"
    "record_loop n e filename add_trigger stop_trigger frame_id ?s2 =
         (Returned, loginfo (RouteIsCreated filename) (take_sample e filename frame_id s1))"
    by blast
  have set1: "is_set stop_trigger s1" "is_set add_trigger s1"
    using s1(1) fs both by (simp_all add: is_set_def first_stop_def)
  have rd: "reads s \<le> reads s1" using s1(3) reads2 by simp
  from s1(4) file2 have "files s1 filename =
      Some ([] @ recorded_rows e frame_id (reads ?s2) (reads s1))"
    by blast
  then have f1: "files s1 filename = Some (recorded_rows e frame_id (reads s) (reads s1))"
    by (simp only: reads2 append_Nil)
  have run: "?run = (Returned, loginfo (RouteIsCreated filename) (take_sample e filename frame_id s1))"
    using can_open s1(5) by (simp add: create_route_def open_for_writing_def Let_def)
  have fw: "files (snd ?run) filename =
      Some (recorded_rows e frame_id (reads s) (reads s1) @ telem_row e (telemetry e frame_id (reads s1)))"
    unfolding run using take_sample_file [OF f1, of e frame_id] by simp
  have rw: "reads (snd ?run) = Suc (reads s1)"
    unfolding run by simp
  have tw: "trace (snd ?run) =
         trace s1 @ [GetTelemetry frame_id,
           Loginfo (AddPoint (tel_x (telemetry e frame_id (reads s1)))
             (tel_y (telemetry e frame_id (reads s1))) (tel_z (telemetry e frame_id (reads s1)))
             filename),
           Loginfo (RouteIsCreated filename)]"
    unfolding run by (simp add: take_sample_trace)
  have "clock s1 = T \<and> is_set stop_trigger s1 \<and> is_set add_trigger s1
     \<and> last (trace s1) = RateSleep
     \<and> reads s \<le> reads s1
     \<and> files s1 filename = Some (recorded_rows e frame_id (reads s) (reads s1))
     \<and> ?run = (Returned, loginfo (RouteIsCreated filename) (take_sample e filename frame_id s1))
     \<and> files (snd ?run) filename =
         Some (recorded_rows e frame_id (reads s) (reads s1)
               @ telem_row e (telemetry e frame_id (reads s1)))
     \<and> reads (snd ?run) = Suc (reads s1)
     \<and> trace (snd ?run) =
         trace s1 @ [GetTelemetry frame_id,
           Loginfo (AddPoint (tel_x (telemetry e frame_id (reads s1)))
             (tel_y (telemetry e frame_id (reads s1))) (tel_z (telemetry e frame_id (reads s1)))
             filename),
           Loginfo (RouteIsCreated filename)]"
    using s1(1,2) set1 rd f1 run fw rw tw by (intro conjI)
  then show ?thesis by (rule exI)
qed

text \<open>
  Both triggers rise together at tick 2 after two idle ticks: the recorder wakes up at
  tick 2 with an empty file and no telemetry read, and leaves a file of one row.
\<close>

theorem create_route_samples_when_stop_already_set_witness:
  "\<exists>s1. clock s1 = 2 \<and> is_set (\<lambda>t. 2 \<le> t) s1 \<and> is_set (\<lambda>t. 2 \<le> t) s1
     \<and> last (trace s1) = RateSleep
     \<and> reads s1 = 0
     \<and> files s1 ''route.csv'' = Some []
     \<and> create_route 2 demo_env ''route.csv'' (\<lambda>t. 2 \<le> t) (\<lambda>t. 2 \<le> t) LOCAL_FRAME_ID world0 =
         (Returned, loginfo (RouteIsCreated ''route.csv'')
            (take_sample demo_env ''route.csv'' LOCAL_FRAME_ID s1))
     \<and> files (snd (create_route 2 demo_env ''route.csv'' (\<lambda>t. 2 \<le> t) (\<lambda>t. 2 \<le> t)
          LOCAL_FRAME_ID world0)) ''route.csv'' = Some (''1.0,2.0,4.5'' @ [CR, LF])
     \<and> reads (snd (create_route 2 demo_env ''route.csv'' (\<lambda>t. 2 \<le> t) (\<lambda>t. 2 \<le> t)
          LOCAL_FRAME_ID world0)) = 1
     \<and> trace (snd (create_route 2 demo_env ''route.csv'' (\<lambda>t. 2 \<le> t) (\<lambda>t. 2 \<le> t)
          LOCAL_FRAME_ID world0)) =
         trace s1 @ [GetTelemetry LOCAL_FRAME_ID,
           Loginfo (AddPoint (Fin 1) (Fin 2) (Fin (9 / 2)) ''route.csv''),
           Loginfo (RouteIsCreated ''route.csv'')]"
proof -
  have can_open: "\<not> open_for_writing_fails demo_env ''route.csv''"
    by (simp add: demo_env_def poses_env_def)
  have fs: "first_stop (\<lambda>t. 2 \<le> t) (clock world0) 2"
    by (simp add: first_stop_def world0_def)
  have running: "clock world0 < 2" and idle: "\<not> 2 \<le> (2::nat) - 1" and both: "2 \<le> (2::nat)"
    and fuel: "2 - clock world0 \<le> (2::nat)"
    by (simp_all add: world0_def)
  have row: "telem_row demo_env (telemetry demo_env LOCAL_FRAME_ID 0) = ''1.0,2.0,4.5'' @ [CR, LF]"
    by (simp add: telem_row_def csv_writerow_def needs_quoting_def demo_env_def
        poses_env_def demo_repr_def CR_def LF_def)
  have tel: "telemetry demo_env LOCAL_FRAME_ID 0 = \<lparr>tel_x = Fin 1, tel_y = Fin 2, tel_z = Fin (9 / 2)\<rparr>"
    by (simp add: demo_env_def poses_env_def)
  from create_route_samples_when_stop_already_set [of demo_env "''route.csv''" "\<lambda>t. 2 \<le> t"
      world0 2 "\<lambda>t. 2 \<le> t" 2 LOCAL_FRAME_ID, OF can_open fs running idle both fuel]
  obtain s1 where s1: "clock s1 = 2" "is_set (\<lambda>t. 2 \<le> t) s1" "last (trace s1) = RateSleep"
      "reads world0 \<le> reads s1"
      "files s1 ''route.csv'' = Some (recorded_rows demo_env LOCAL_FRAME_ID (reads world0) (reads s1))"
      "create_route 2 demo_env ''route.csv'' (\<lambda>t. 2 \<le> t) (\<lambda>t. 2 \<le> t) LOCAL_FRAME_ID world0 =
         (Returned, loginfo (RouteIsCreated ''route.csv'')
            (take_sample demo_env ''route.csv'' LOCAL_FRAME_ID s1))"
      "files (snd (create_route 2 demo_env ''route.csv'' (\<lambda>t. 2 \<le> t) (\<lambda>t. 2 \<le> t)
          LOCAL_FRAME_ID world0)) ''route.csv'' =
         Some (recorded_rows demo_env LOCAL_FRAME_ID (reads world0) (reads s1)
               @ telem_row demo_env (telemetry demo_env LOCAL_FRAME_ID (reads s1)))"
      "reads (snd (create_route 2 demo_env ''route.csv'' (\<lambda>t. 2 \<le> t) (\<lambda>t. 2 \<le> t)
          LOCAL_FRAME_ID world0)) = Suc (reads s1)"
      "trace (snd (create_route 2 demo_env ''route.csv'' (\<lambda>t. 2 \<le> t) (\<lambda>t. 2 \<le> t)
          LOCAL_FRAME_ID world0)) =
         trace s1 @ [GetTelemetry LOCAL_FRAME_ID,
           Loginfo (AddPoint (tel_x (telemetry demo_env LOCAL_FRAME_ID (reads s1)))
             (tel_y (telemetry demo_env LOCAL_FRAME_ID (reads s1)))
             (tel_z (telemetry demo_env LOCAL_FRAME_ID (reads s1))) ''route.csv''),
           Loginfo (RouteIsCreated ''route.csv'')]"
    by blast
  have run: "create_route 2 demo_env ''route.csv'' (\<lambda>t. 2 \<le> t) (\<lambda>t. 2 \<le> t) LOCAL_FRAME_ID world0 =
      (Returned, loginfo (RouteIsCreated ''route.csv'')
         (take_sample demo_env ''route.csv'' LOCAL_FRAME_ID
            (rate_sleep (rate_sleep
               (loginfo (OpenFileForWriting ''route.csv'') (world0\<lparr>files := [''route.csv'' \<mapsto> []]\<rparr>))))))"
    by (simp add: create_route_def open_for_writing_def can_open record_loop.simps
        wait_for_add.simps wait_for_release.simps is_set_def take_sample_def Let_def
        get_telemetry_def world0_def numeral_2_eq_2)
  have "reads (snd (create_route 2 demo_env ''route.csv'' (\<lambda>t. 2 \<le> t) (\<lambda>t. 2 \<le> t)
          LOCAL_FRAME_ID world0)) = 1"
    unfolding run by (simp add: world0_def)
  with s1(8) have r1: "reads s1 = 0" by simp
  have r0: "reads world0 = 0" by (simp add: world0_def)
  show ?thesis
    using s1 by (intro exI [of _ s1]) (simp add: r1 r0 row [unfolded tel] tel)
qed

section \<open>Route reading: a file that cannot be opened\<close>

text \<open>
  Claim C7. When the file cannot be opened, \<^verbatim>\<open>read_route\<close> does not raise: it logs an
  error and returns \<^verbatim>\<open>None\<close>, which is not the empty list that an existing empty file
  gives.
\<close>

theorem read_route_missing_file:
  "(files s filename = None \<longrightarrow>
      read_route e filename s = (Inr None, logging_error (FileCantBeOpened filename) s))
   \<and> (files s filename = Some [] \<longrightarrow> read_route e filename s = (Inr (Some []), s))"
  by (simp add: read_route_def parse_reset_def)

theorem read_route_missing_file_witness:
  "files world0 ''route.csv'' = None
   \<and> read_route (poses_env (\<lambda>i. (0, 0, 0))) ''route.csv'' world0 =
       (Inr None, world0\<lparr>trace := [LoggingError (FileCantBeOpened ''route.csv'')]\<rparr>)
   \<and> files (world0\<lparr>files := [''route.csv'' \<mapsto> []]\<rparr>) ''route.csv'' = Some []
   \<and> read_route (poses_env (\<lambda>i. (0, 0, 0))) ''route.csv'' (world0\<lparr>files := [''route.csv'' \<mapsto> []]\<rparr>) =
       (Inr (Some []), world0\<lparr>files := [''route.csv'' \<mapsto> []]\<rparr>)"
  using read_route_missing_file [of world0 "''route.csv''" "poses_env (\<lambda>i. (0, 0, 0))"]
        read_route_missing_file [of "world0\<lparr>files := [''route.csv'' \<mapsto> []]\<rparr>" "''route.csv''"
          "poses_env (\<lambda>i. (0, 0, 0))"]
  by (simp add: world0_def logging_error_def emit_def)

section \<open>Route storage: writing and reading back\<close>

lemma plain_no_quoting:
  "plain_text f \<Longrightarrow> \<not> needs_quoting (CHR '','') (CHR 0x22) f"
  by (auto simp: plain_text_def plain_char_def needs_quoting_def list_all_iff list_ex_iff)

lemma csv_writerow_plain:
  assumes "plain_text fx" "plain_text fy" "plain_text fz"
  shows "csv_writerow (CHR '','') (CHR 0x22) [fx, fy, fz] = row_text fx fy fz"
  using assms plain_no_quoting
  by (simp add: csv_writerow_def row_text_def Let_def)

lemma feed_in_field:
  "list_all plain_char cs \<Longrightarrow>
   feed_line (CHR '','') (CHR ''|'') \<lparr>pstate = IN_FIELD, rec_fields = fs, cur_field = c\<rparr> (cs @ rest) =
   feed_line (CHR '','') (CHR ''|'') \<lparr>pstate = IN_FIELD, rec_fields = fs, cur_field = c @ cs\<rparr> rest"
proof (induction cs arbitrary: c)
  case Nil
  show ?case by simp
next
  case (Cons x cs)
  then have x: "plain_char x" and cs: "list_all plain_char cs" by simp_all
  from x have "feed_line (CHR '','') (CHR ''|'') \<lparr>pstate = IN_FIELD, rec_fields = fs, cur_field = c\<rparr>
        ((x # cs) @ rest) =
      feed_line (CHR '','') (CHR ''|'') \<lparr>pstate = IN_FIELD, rec_fields = fs, cur_field = c @ [x]\<rparr>
        (cs @ rest)"
    by (simp add: plain_char_def parse_add_char_def)
  with Cons.IH [OF cs, of "c @ [x]"] show ?case by simp
qed

lemma feed_field:
  assumes "plain_text f" and "st = START_RECORD \<or> st = START_FIELD"
  shows "feed_line (CHR '','') (CHR ''|'') \<lparr>pstate = st, rec_fields = fs, cur_field = []\<rparr> (f @ rest) =
     feed_line (CHR '','') (CHR ''|'') \<lparr>pstate = IN_FIELD, rec_fields = fs, cur_field = f\<rparr> rest"
proof -
  from assms(1) obtain x cs where f: "f = x # cs" and x: "plain_char x" and cs: "list_all plain_char cs"
    by (cases f) (auto simp: plain_text_def)
  from x assms(2) have "feed_line (CHR '','') (CHR ''|'') \<lparr>pstate = st, rec_fields = fs, cur_field = []\<rparr>
        (f @ rest) =
      feed_line (CHR '','') (CHR ''|'') \<lparr>pstate = IN_FIELD, rec_fields = fs, cur_field = [x]\<rparr> (cs @ rest)"
    unfolding f
    by (auto simp: plain_char_def parse_add_char_def start_field_def is_newline_def)
  with feed_in_field [OF cs, of fs "[x]" rest] show ?thesis by (simp add: f)
qed

lemma feed_delimiter:
  "feed_line (CHR '','') (CHR ''|'') \<lparr>pstate = IN_FIELD, rec_fields = fs, cur_field = c\<rparr> (CHR '','' # rest) =
   feed_line (CHR '','') (CHR ''|'') \<lparr>pstate = START_FIELD, rec_fields = fs @ [c], cur_field = []\<rparr> rest"
  by (simp add: parse_save_field_def NUL_def LF_def CR_def)

lemma feed_line_end:
  "feed_line (CHR '','') (CHR ''|'') \<lparr>pstate = IN_FIELD, rec_fields = fs, cur_field = c\<rparr> [CR, LF] =
   Inr \<lparr>pstate = START_RECORD, rec_fields = fs @ [c], cur_field = []\<rparr>"
  by (simp add: parse_save_field_def NUL_def LF_def CR_def is_newline_def)

lemma feed_row:
  assumes "plain_text fx" "plain_text fy" "plain_text fz"
  shows "feed_line (CHR '','') (CHR ''|'') parse_reset (row_text fx fy fz) =
     Inr \<lparr>pstate = START_RECORD, rec_fields = [fx, fy, fz], cur_field = []\<rparr>"
proof -
  have "feed_line (CHR '','') (CHR ''|'') parse_reset (row_text fx fy fz) =
      feed_line (CHR '','') (CHR ''|'') \<lparr>pstate = IN_FIELD, rec_fields = [], cur_field = fx\<rparr>
        (CHR '','' # fy @ CHR '','' # fz @ [CR, LF])"
    using feed_field [OF assms(1), of START_RECORD "[]"] by (simp add: parse_reset_def row_text_def)
  also have "\<dots> = feed_line (CHR '','') (CHR ''|'') \<lparr>pstate = START_FIELD, rec_fields = [fx], cur_field = []\<rparr>
        (fy @ CHR '','' # fz @ [CR, LF])"
    by (simp only: feed_delimiter append_Nil)
  also have "\<dots> = feed_line (CHR '','') (CHR ''|'') \<lparr>pstate = IN_FIELD, rec_fields = [fx], cur_field = fy\<rparr>
        (CHR '','' # fz @ [CR, LF])"
    using feed_field [OF assms(2), of START_FIELD "[fx]"] by simp
  also have "\<dots> = feed_line (CHR '','') (CHR ''|'') \<lparr>pstate = START_FIELD, rec_fields = [fx, fy], cur_field = []\<rparr>
        (fz @ [CR, LF])"
    by (simp only: feed_delimiter append_Cons append_Nil)
  also have "\<dots> = feed_line (CHR '','') (CHR ''|'') \<lparr>pstate = IN_FIELD, rec_fields = [fx, fy], cur_field = fz\<rparr>
        [CR, LF]"
    using feed_field [OF assms(3), of START_FIELD "[fx, fy]"] by simp
  also have "\<dots> = Inr \<lparr>pstate = START_RECORD, rec_fields = [fx, fy, fz], cur_field = []\<rparr>"
    by (simp only: feed_line_end append_Cons append_Nil)
  finally show ?thesis .
qed

lemma file_lines_line:
  "LF \<notin> set xs \<Longrightarrow> file_lines cur (xs @ LF # rest) = (cur @ xs @ [LF]) # file_lines [] rest"
  by (induction xs arbitrary: cur) auto

lemma plain_text_no_LF: "plain_text f \<Longrightarrow> LF \<notin> set f"
  by (auto simp: plain_text_def plain_char_def list_all_iff)

lemma file_lines_row:
  assumes "plain_text fx" "plain_text fy" "plain_text fz"
  shows "file_lines [] (row_text fx fy fz @ rest) = row_text fx fy fz # file_lines [] rest"
proof -
  have "LF \<notin> set (fx @ CHR '','' # fy @ CHR '','' # fz @ [CR])"
    using assms by (auto dest: plain_text_no_LF simp: LF_def CR_def)
  from file_lines_line [OF this, of "[]" rest] show ?thesis
    by (simp add: row_text_def)
qed

lemma telem_row_plain:
  assumes "\<forall>v. plain_text (float_repr e v)"
  shows "telem_row e t = row_text (float_repr e (tel_x t)) (float_repr e (tel_y t)) (float_repr e (tel_z t))"
  using assms by (simp add: telem_row_def csv_writerow_plain)

lemma read_back_rows:
  assumes plain: "\<forall>v. plain_text (float_repr e v)"
      and faithful: "\<forall>t\<in>set ts. reads_back e t"
  shows "import_rows e (csv_reader (CHR '','') (CHR ''|'') parse_reset
           (file_lines [] (concat (map (telem_row e) ts)))) acc =
         Inr (acc @ map written_point ts)"
  using faithful
proof (induction ts arbitrary: acc)
  case Nil
  show ?case by (simp add: parse_reset_def)
next
  case (Cons t ts)
  let ?fx = "float_repr e (tel_x t)" and ?fy = "float_repr e (tel_y t)" and ?fz = "float_repr e (tel_z t)"
  have p: "plain_text ?fx" "plain_text ?fy" "plain_text ?fz" using plain by simp_all
  have w: "float_of_string e ?fx = Some (tel_x t)" "float_of_string e ?fy = Some (tel_y t)"
      "float_of_string e ?fz = Some (tel_z t)"
    using Cons.prems by (simp_all add: reads_back_def)
  have rest: "\<forall>t\<in>set ts. reads_back e t" using Cons.prems by simp
  have lines: "file_lines [] (concat (map (telem_row e) (t # ts))) =
      row_text ?fx ?fy ?fz # file_lines [] (concat (map (telem_row e) ts))"
    using file_lines_row [OF p] by (simp add: telem_row_plain [OF plain])
  have rd: "csv_reader (CHR '','') (CHR ''|'') parse_reset
       (row_text ?fx ?fy ?fz # file_lines [] (concat (map (telem_row e) ts))) =
      Inr [?fx, ?fy, ?fz] # csv_reader (CHR '','') (CHR ''|'') parse_reset
        (file_lines [] (concat (map (telem_row e) ts)))"
    by (simp add: feed_row [OF p])
  show ?case
    unfolding lines rd by (simp add: w Cons.IH [OF rest] written_point_def)
qed

text \<open>
  Claim C4. Whatever the trigger schedule and the telemetry, once \<^verbatim>\<open>create_route\<close> has
  returned, \<^verbatim>\<open>read_route\<close> on the same file returns exactly the samples that were
  written, as points, in the order of writing. The text of a float is what \<^verbatim>\<open>repr\<close>
  gives and it is read by \<^verbatim>\<open>float\<close>: the statement holds for every pair of conversions
  such that the text is not empty, holds no separator, quote or line character, and is
  parsed back to the float it was written from, as is the case in Python. The writer
  quotes with \<^verbatim>\<open>"\<close> and the reader with \<^verbatim>\<open>|\<close>; for such texts neither ever quotes.
\<close>

theorem route_round_trip:
  assumes can_open: "\<not> open_for_writing_fails e filename"
      and fs: "first_stop stop_trigger (clock s) T"
      and fuel: "T - clock s \<le> n"
      and plain: "\<forall>v. plain_text (float_repr e v)"
      and faithful: "\<forall>k. reads_back e (telemetry e frame_id k)"
  shows "read_route e filename (snd (create_route n e filename add_trigger stop_trigger frame_id s)) =
     (Inr (Some (map (\<lambda>k. written_point (telemetry e frame_id k))
        [reads s..<reads (snd (create_route n e filename add_trigger stop_trigger frame_id s))])),
      snd (create_route n e filename add_trigger stop_trigger frame_id s))"
proof -
  let ?s2 = "loginfo (OpenFileForWriting filename) (s\<lparr>files := (files s)(filename \<mapsto> [])\<rparr>)"
  let ?w = "snd (create_route n e filename add_trigger stop_trigger frame_id s)"
  obtain r s3 where loop: "record_loop n e filename add_trigger stop_trigger frame_id ?s2 = (r, s3)"
    by (cases "record_loop n e filename add_trigger stop_trigger frame_id ?s2")
  have fs2: "first_stop stop_trigger (clock ?s2) T" and fuel2: "T - clock ?s2 \<le> n"
    and file2: "files ?s2 filename = Some []"
    using fs fuel by simp_all
  from record_loop_returns_at_stop [OF fs2 fuel2, of e filename add_trigger frame_id] loop
  have r: "r = Finished \<or> r = Returned" by simp
  from record_loop_file [OF fs2 fuel2 file2, of e add_trigger frame_id] loop
  have f: "files s3 filename = Some (recorded_rows e frame_id (reads s) (reads s3))" by simp
  from create_route_unfold [OF can_open loop r] f
  have w: "files ?w filename = Some (recorded_rows e frame_id (reads s) (reads ?w))" by simp
  have rows: "recorded_rows e frame_id (reads s) (reads ?w) =
      concat (map (telem_row e) (map (telemetry e frame_id) [reads s..<reads ?w]))"
    by (simp add: recorded_rows_def comp_def)
  have "\<forall>t\<in>set (map (telemetry e frame_id) [reads s..<reads ?w]). reads_back e t"
    using faithful by simp
  from read_back_rows [OF plain this, of "[]"]
  have rb: "import_rows e (csv_reader (CHR '','') (CHR ''|'') parse_reset
        (file_lines [] (concat (map (telem_row e) (map (telemetry e frame_id) [reads s..<reads ?w]))))) [] =
      Inr ([] @ map written_point (map (telemetry e frame_id) [reads s..<reads ?w]))" .
  have "read_route e filename ?w =
      (case import_rows e (csv_reader (CHR '','') (CHR ''|'') parse_reset
          (file_lines [] (recorded_rows e frame_id (reads s) (reads ?w)))) [] of
         Inl ex \<Rightarrow> (Inl ex, ?w)
       | Inr imported_points \<Rightarrow> (Inr (Some imported_points), ?w))"
    by (simp only: read_route_def w option.case)
  also have "\<dots> = (Inr (Some (map written_point (map (telemetry e frame_id) [reads s..<reads ?w]))), ?w)"
    by (simp only: rows rb sum.case append_Nil)
  finally show ?thesis
    by (simp add: comp_def)
qed

text \<open>
  One sample \<open>(1, 2, 4.5)\<close> is recorded: the file is the line \<^verbatim>\<open>1.0,2.0,4.5\<close> and reading
  it gives the point back.
\<close>

theorem route_round_trip_witness:
  "read_route demo_env ''route.csv''
     (snd (create_route 1 demo_env ''route.csv'' (\<lambda>t. True) (\<lambda>t. 1 \<le> t) LOCAL_FRAME_ID world0)) =
   (Inr (Some [\<lparr>pt_x = Fin 1, pt_y = Fin 2, pt_z = Fin (9 / 2)\<rparr>]),
    snd (create_route 1 demo_env ''route.csv'' (\<lambda>t. True) (\<lambda>t. 1 \<le> t) LOCAL_FRAME_ID world0))
   \<and> files (snd (create_route 1 demo_env ''route.csv'' (\<lambda>t. True) (\<lambda>t. 1 \<le> t) LOCAL_FRAME_ID world0))
        ''route.csv'' = Some (''1.0,2.0,4.5'' @ [CR, LF])"
proof -
  have plain: "\<forall>v. plain_text (float_repr demo_env v)"
    by (simp add: demo_env_def poses_env_def demo_repr_def plain_text_def plain_char_def
        CR_def LF_def NUL_def)
  have faithful: "\<forall>k. reads_back demo_env (telemetry demo_env LOCAL_FRAME_ID k)"
    by (simp add: reads_back_def demo_env_def poses_env_def demo_repr_def demo_float_def)
  have can_open: "\<not> open_for_writing_fails demo_env ''route.csv''"
    by (simp add: demo_env_def poses_env_def)
  have fs: "first_stop (\<lambda>t. 1 \<le> t) (clock world0) 1"
    by (simp add: first_stop_def world0_def)
  have fuel: "1 - clock world0 \<le> (1::nat)" by simp
  have run: "create_route 1 demo_env ''route.csv'' (\<lambda>t. True) (\<lambda>t. 1 \<le> t) LOCAL_FRAME_ID world0 =
      (Returned, loginfo (RouteIsCreated ''route.csv'')
         (rate_sleep (take_sample demo_env ''route.csv'' LOCAL_FRAME_ID
            (loginfo (OpenFileForWriting ''route.csv'') (world0\<lparr>files := [''route.csv'' \<mapsto> []]\<rparr>)))))"
    by (simp add: create_route_def open_for_writing_def can_open record_loop.simps
        wait_for_add.simps wait_for_release.simps is_set_def take_sample_def Let_def
        get_telemetry_def world0_def)
  have rd: "reads (snd (create_route 1 demo_env ''route.csv'' (\<lambda>t. True) (\<lambda>t. 1 \<le> t)
      LOCAL_FRAME_ID world0)) = 1"
    unfolding run by (simp add: world0_def)
  have pt: "written_point (telemetry demo_env LOCAL_FRAME_ID 0) =
      \<lparr>pt_x = Fin 1, pt_y = Fin 2, pt_z = Fin (9 / 2)\<rparr>"
    by (simp add: written_point_def demo_env_def poses_env_def)
  have fl: "files (snd (create_route 1 demo_env ''route.csv'' (\<lambda>t. True) (\<lambda>t. 1 \<le> t)
      LOCAL_FRAME_ID world0)) ''route.csv'' = Some (''1.0,2.0,4.5'' @ [CR, LF])"
    unfolding run
    by (simp add: take_sample_def Let_def file_write_def get_telemetry_def emit_def loginfo_def
        rate_sleep_def world0_def telem_row_def csv_writerow_def needs_quoting_def demo_env_def
        poses_env_def demo_repr_def CR_def LF_def)
  from route_round_trip [OF can_open fs fuel plain faithful, of "\<lambda>t. True"] rd pt fl
  show ?thesis by (simp add: world0_def)
qed

end
